theory Spec2Isabelle
  imports Main "HOL-Library.Multiset"
begin

section \<open>Grids\<close>

text \<open>
  A grid is the \<^verbatim>\<open>number[][]\<close> of \<^verbatim>\<open>App.vue\<close>: a list of rows of integers, 0 for an
  empty cell. Nothing in the type makes it 9x9. The source reads every cell through
  \<^verbatim>\<open>grid[row]?.[col]\<close>, which is \<^verbatim>\<open>undefined\<close> outside the grid; \<open>cellAt\<close> is that
  read, with \<open>None\<close> for \<^verbatim>\<open>undefined\<close>. It is polymorphic because the board of the
  session is read the same way.
\<close>

type_synonym grid = "int list list"

definition cellAt :: "'a list list \<Rightarrow> nat \<Rightarrow> nat \<Rightarrow> 'a option" where
  "cellAt g r c = (if r < length g \<and> c < length (g ! r) then Some (g ! r ! c) else None)"

text \<open>
  \<open>setCell\<close> is the write \<^verbatim>\<open>grid[row]![col] = v\<close> to a cell that exists. In \<open>fillGrid\<close>,
  \<open>updateCell\<close>, \<open>useHint\<close> and \<open>confirmGiveUp\<close> every write follows a read of the same cell
  that found it, so the cell exists. Outside the grid the list update leaves the grid
  as it is; \<open>removeNumbers\<close>, the one function that can write where it has not read a
  value, goes through \<open>writeCell\<close> below instead.
\<close>

definition setCell :: "'a list list \<Rightarrow> nat \<Rightarrow> nat \<Rightarrow> 'a \<Rightarrow> 'a list list" where
  "setCell g r c v = g[r := (g ! r)[c := v]]"

text \<open>
  The number of zero cells and of non-zero cells of a grid.
\<close>

definition zeros :: "grid \<Rightarrow> nat" where
  "zeros g = sum_list (map (\<lambda>row. count_list row 0) g)"

definition nonZeros :: "grid \<Rightarrow> nat" where
  "nonZeros g = sum_list (map (\<lambda>row. length (filter (\<lambda>v. v \<noteq> 0) row)) g)"

section \<open>Grid validator and grid filler\<close>

text \<open>
  \<open>isValid\<close>: three loops, each returning false at the first cell equal to \<open>num\<close>: the
  row, the column, and the 3x3 block whose origin is \<open>(row - row % 3, col - col % 3)\<close>.
\<close>

definition isValid :: "grid \<Rightarrow> nat \<Rightarrow> nat \<Rightarrow> int \<Rightarrow> bool" where
  "isValid g row col num =
     (list_all (\<lambda>x. cellAt g row x \<noteq> Some num) [0..<9] \<and>
      list_all (\<lambda>x. cellAt g x col \<noteq> Some num) [0..<9] \<and>
      (let startRow = row - row mod 3; startCol = col - col mod 3
       in list_all (\<lambda>i. list_all (\<lambda>j. cellAt g (i + startRow) (j + startCol) \<noteq> Some num) [0..<3]) [0..<3]))"

text \<open>
  The two outer loops of \<open>fillGrid\<close> look for the first cell, in row-major order over
  \<open>0..8 x 0..8\<close>, that reads as 0.
\<close>

definition firstEmpty :: "grid \<Rightarrow> (nat \<times> nat) option" where
  "firstEmpty g = find (\<lambda>(row, col). cellAt g row col = Some 0) (List.product [0..<9] [0..<9])"

text \<open>
  \<open>fillGrid\<close> returns the boolean of the source together with the grid it leaves behind
  (the source mutates its argument). The shuffle
  \<^verbatim>\<open>[1, ..., 9].sort(() => Math.random() - 0.5)\<close> is an oracle: \<open>shuf k\<close> is the list the
  \<open>k\<close>-th shuffle of the run produces, and the counter \<open>k\<close> is threaded through the calls
  and returned. \<open>tryNums\<close> is the \<^verbatim>\<open>for (const num of numbers)\<close> loop at the cell
  \<open>(row, col)\<close>; falling out of the loop is the \<^verbatim>\<open>return false\<close> after it.
\<close>

function (domintros) fillGrid :: "(nat \<Rightarrow> int list) \<Rightarrow> nat \<Rightarrow> grid \<Rightarrow> bool \<times> grid \<times> nat"
  and tryNums :: "(nat \<Rightarrow> int list) \<Rightarrow> int list \<Rightarrow> nat \<Rightarrow> grid \<Rightarrow> nat \<Rightarrow> nat \<Rightarrow> bool \<times> grid \<times> nat"
where
  "fillGrid shuf k g =
     (case firstEmpty g of
        None \<Rightarrow> (True, g, k)
      | Some (row, col) \<Rightarrow> tryNums shuf (shuf k) (Suc k) g row col)"
| "tryNums shuf [] k g row col = (False, g, k)"
| "tryNums shuf (num # nums) k g row col =
     (if isValid g row col num then
        (let (ok, g', k') = fillGrid shuf k (setCell g row col num)
         in if ok then (True, g', k')
            else tryNums shuf nums k' (setCell g' row col 0) row col)
      else tryNums shuf nums k g row col)"
  by pat_completeness auto

text \<open>
  The recursion is nested: the loop goes on with the grid the recursive call left. It
  terminates because a call that fails leaves the grid as it found it, which is proved
  first on the domain of the function. The measure is the number of zero cells, then
  the function, then the length of the list of candidates; for a call of \<open>tryNums\<close> at
  a cell that is not empty (which \<open>fillGrid\<close> never makes) the first component is two
  more.
\<close>

definition fillMeasure :: "(nat \<Rightarrow> int list) \<times> nat \<times> grid + (nat \<Rightarrow> int list) \<times> int list \<times> nat \<times> grid \<times> nat \<times> nat \<Rightarrow> nat \<times> nat \<times> nat" where
  "fillMeasure a =
     (case a of
        Inl (shuf, k, g) \<Rightarrow> (zeros g, 1, 0)
      | Inr (shuf, nums, k, g, row, col) \<Rightarrow>
          (if cellAt g row col = Some 0 then zeros g else zeros g + 2, 0, length nums))"

lemma count_list_update:
  "i < length xs \<Longrightarrow>
   count_list (xs[i := v]) a + (if xs ! i = a then 1 else 0) = count_list xs a + (if v = a then 1 else 0)"
proof (induction xs arbitrary: i)
  case Nil
  then show ?case by simp
next
  case (Cons x xs)
  show ?case
  proof (cases i)
    case 0
    then show ?thesis by simp
  next
    case (Suc j)
    with Cons.prems have "j < length xs" by simp
    from Cons.IH[OF this] Suc show ?thesis by (auto split: if_splits)
  qed
qed

lemma sum_list_map_update:
  fixes f :: "'a \<Rightarrow> nat"
  shows "i < length xs \<Longrightarrow> sum_list (map f (xs[i := y])) + f (xs ! i) = sum_list (map f xs) + f y"
  by (induction xs arbitrary: i) (auto split: nat.splits)

lemma setCell_out: "cellAt g r c = None \<Longrightarrow> setCell g r c v = g"
  by (auto simp: cellAt_def setCell_def not_less list_update_beyond split: if_splits)

lemma zeros_setCell:
  assumes "cellAt g r c = Some x"
  shows "zeros (setCell g r c v) + (if x = 0 then 1 else 0) = zeros g + (if v = 0 then 1 else 0)"
proof -
  from assms have r: "r < length g" and c: "c < length (g ! r)" and x: "g ! r ! c = x"
    by (auto simp: cellAt_def split: if_splits)
  have "zeros (setCell g r c v) + count_list (g ! r) 0 = zeros g + count_list ((g ! r)[c := v]) 0"
    unfolding zeros_def setCell_def using sum_list_map_update[OF r, of "\<lambda>row. count_list row 0"] by simp
  moreover have "count_list ((g ! r)[c := v]) 0 + (if x = 0 then 1 else 0) = count_list (g ! r) 0 + (if v = 0 then 1 else 0)"
    using count_list_update[OF c, of v 0] x by simp
  ultimately show ?thesis by (auto split: if_splits)
qed

lemma cellAt_setCell:
  "cellAt (setCell g r c v) r' c' =
     (if r' = r \<and> c' = c \<and> cellAt g r c \<noteq> None then Some v else cellAt g r' c')"
  by (auto simp: cellAt_def setCell_def nth_list_update)

lemma setCell_setCell: "setCell (setCell g r c v) r c w = setCell g r c w"
  by (cases "r < length g") (simp_all add: setCell_def not_less list_update_beyond)

lemma setCell_same: "cellAt g r c = Some v \<Longrightarrow> setCell g r c v = g"
  by (auto simp: cellAt_def setCell_def list_update_same_conv split: if_splits)

lemma isValid_not_self: "isValid g r c n \<Longrightarrow> cellAt g r c \<noteq> Some n"
proof -
  assume v: "isValid g r c n"
  have "r mod 3 < 3" "c mod 3 < 3" by simp_all
  moreover have "r mod 3 + (r - r mod 3) = r" "c mod 3 + (c - c mod 3) = c" by simp_all
  ultimately show ?thesis using v
    unfolding isValid_def Let_def list_all_iff
    by (metis atLeastLessThan_iff set_upt zero_le)
qed

lemma firstEmpty_Some: "firstEmpty g = Some (r, c) \<Longrightarrow> cellAt g r c = Some 0 \<and> r < 9 \<and> c < 9"
proof -
  assume "firstEmpty g = Some (r, c)"
  then obtain i where i: "i < length (List.product [0..<9] [0..<9::nat])"
      and p: "cellAt g r c = Some 0" and e: "(r, c) = List.product [0..<9] [0..<9] ! i"
    unfolding firstEmpty_def find_Some_iff by auto
  from i e have "(r, c) \<in> set (List.product [0..<9] [0..<9])"
    using nth_mem by metis
  with p show ?thesis by simp
qed

lemma fillGrid_fail_dom:
  "fillGrid_tryNums_dom (Inl (shuf, k, g)) \<Longrightarrow> \<not> fst (fillGrid shuf k g) \<Longrightarrow> fst (snd (fillGrid shuf k g)) = g"
  "fillGrid_tryNums_dom (Inr (shuf, nums, k, g, row, col)) \<Longrightarrow> cellAt g row col = Some 0 \<Longrightarrow>
     \<not> fst (tryNums shuf nums k g row col) \<Longrightarrow> fst (snd (tryNums shuf nums k g row col)) = g"
proof (induction rule: fillGrid_tryNums.pinduct)
  case (1 shuf k g)
  then show ?case
    by (auto simp: fillGrid.psimps split: option.splits dest: firstEmpty_Some)
next
  case (2 shuf k g row col)
  then show ?case by (simp add: tryNums.psimps)
next
  case (3 shuf num nums k g row col)
  show ?case
  proof (cases "isValid g row col num")
    case False
    with 3 show ?thesis by (simp add: tryNums.psimps)
  next
    case True
    obtain ok g' k' where r: "fillGrid shuf k (setCell g row col num) = (ok, g', k')"
      by (cases "fillGrid shuf k (setCell g row col num)") auto
    from 3(6) True r have nok: "\<not> ok"
      by (auto simp: tryNums.psimps(2)[OF 3(1)] split: if_splits)
    from 3(2)[OF True] r nok have geq: "g' = setCell g row col num" by simp
    have restored: "setCell g' row col 0 = g"
      using geq 3(5) by (simp add: setCell_setCell setCell_same)
    from nok have okF: "ok = False" by simp
    have step: "tryNums shuf (num # nums) k g row col = tryNums shuf nums k' g row col"
      using True r nok restored by (simp add: tryNums.psimps(2)[OF 3(1)])
    from 3(3)[OF True refl r[symmetric] refl nok] restored 3(5,6) step
    show ?thesis by simp
  qed
qed

lemma fillMeasure_place:
  assumes "isValid g row col num"
  shows "(fillMeasure (Inl (shuf, k, setCell g row col num)),
          fillMeasure (Inr (shuf, num # nums, k', g, row, col)))
         \<in> less_than <*lex*> less_than <*lex*> less_than"
proof (cases "cellAt g row col")
  case None
  then show ?thesis by (simp add: fillMeasure_def setCell_out)
next
  case (Some x)
  from zeros_setCell[OF Some, of num] isValid_not_self[OF assms] Some
  show ?thesis by (auto simp: fillMeasure_def split: if_splits)
qed

lemma fillMeasure_next:
  "(fillMeasure (Inr (shuf, nums, k, setCell (setCell g row col num) row col 0, row, col)),
    fillMeasure (Inr (shuf, num # nums, k', g, row, col)))
   \<in> less_than <*lex*> less_than <*lex*> less_than"
proof (cases "cellAt g row col")
  case None
  then show ?thesis by (simp add: fillMeasure_def setCell_out)
next
  case (Some x)
  from zeros_setCell[OF Some, of 0] Some
  show ?thesis
    by (auto simp: fillMeasure_def setCell_setCell setCell_same cellAt_setCell split: if_splits)
qed

termination fillGrid
proof (relation "inv_image (less_than <*lex*> less_than <*lex*> less_than) fillMeasure", goal_cases)
  case 1
  show ?case by (intro wf_inv_image wf_lex_prod wf_less_than)
next
  case (2 shuf k g x2 x y)
  then show ?case
    by (auto simp: fillMeasure_def dest: firstEmpty_Some)
next
  case (3 shuf num nums k g row col)
  then show ?case
    using fillMeasure_place by simp
next
  case (4 shuf num nums k g row col x xa y xb ya)
  from 4(2,3,4) have r: "fillGrid shuf k (setCell g row col num) = (xa, xb, ya)" by simp
  from fillGrid_fail_dom(1)[OF 4(6)] r 4(5) have "xb = setCell g row col num" by simp
  then show ?case
    using fillMeasure_next by simp
next
  case (5 shuf num nums k g row col)
  then show ?case
    by (auto simp: fillMeasure_def)
qed

section \<open>Puzzle carver\<close>

text \<open>
  The exceptions a model below can end in. \<open>TypeError\<close>: a write \<^verbatim>\<open>grid[row]![col] = 0\<close>
  where \<^verbatim>\<open>grid[row]\<close> is \<^verbatim>\<open>undefined\<close>. \<open>SyntaxError\<close>: what \<^verbatim>\<open>JSON.parse\<close> throws.
  \<open>SparseRow\<close> is not an exception of JavaScript: a write beyond the end of a row that
  exists would grow the row and leave holes, which are not numbers, and the model stops
  there with this value rather than inventing cells.
\<close>

datatype error = TypeError | SparseRow | SyntaxError

definition writeCell :: "grid \<Rightarrow> nat \<Rightarrow> nat \<Rightarrow> int \<Rightarrow> error + grid" where
  "writeCell g r c v =
     (if length g \<le> r then Inl TypeError
      else if length (g ! r) \<le> c then Inl SparseRow
      else Inr (setCell g r c v))"

text \<open>
  \<open>removeNumbers\<close>: the \<^verbatim>\<open>while (removed < count)\<close> loop. The two draws
  \<^verbatim>\<open>Math.floor(Math.random() * 9)\<close> of iteration \<open>i\<close> are the oracle \<open>pick i\<close>. The loop
  can run forever (a \<open>pick\<close> that never finds a non-zero cell), so it is a partial
  function and not returning is the value \<open>None\<close>. A result \<open>Inr (g, i)\<close> is the grid left
  behind and the number of iterations made. \<open>cnt\<close> is the parameter \<^verbatim>\<open>count\<close>.
\<close>

partial_function (option) removeLoop ::
  "(nat \<Rightarrow> nat \<times> nat) \<Rightarrow> nat \<Rightarrow> nat \<Rightarrow> nat \<Rightarrow> grid \<Rightarrow> (error + grid \<times> nat) option"
where
  "removeLoop pick cnt removed i g =
     (if removed < cnt then
        (let (row, col) = pick i in
         if cellAt g row col \<noteq> Some 0 then
           (case writeCell g row col 0 of
              Inl e \<Rightarrow> Some (Inl e)
            | Inr g' \<Rightarrow> removeLoop pick cnt (removed + 1) (i + 1) g')
         else removeLoop pick cnt removed (i + 1) g)
      else Some (Inr (g, i)))"

declare removeLoop.simps [code]

definition removeNumbers :: "(nat \<Rightarrow> nat \<times> nat) \<Rightarrow> grid \<Rightarrow> nat \<Rightarrow> (error + grid \<times> nat) option" where
  "removeNumbers pick g cnt = removeLoop pick cnt 0 0 g"

section \<open>Puzzle fingerprint\<close>

text \<open>
  \<^verbatim>\<open>row.join("")\<close> writes every number in decimal, as \<open>showInt\<close> does for the integers;
  \<open>hashPuzzle\<close> joins the rows' strings.
\<close>

definition digitChar :: "nat \<Rightarrow> char" where
  "digitChar d = ''0123456789'' ! d"

function showNat :: "nat \<Rightarrow> string" where
  "showNat n = (if n < 10 then [digitChar n] else showNat (n div 10) @ [digitChar (n mod 10)])"
  by pat_completeness auto

termination
  by (relation "measure id") auto

definition showInt :: "int \<Rightarrow> string" where
  "showInt i = (if i < 0 then CHR ''-'' # showNat (nat (- i)) else showNat (nat i))"

definition hashPuzzle :: "grid \<Rightarrow> string" where
  "hashPuzzle puzzle = concat (map (\<lambda>row. concat (map showInt row)) puzzle)"

section \<open>Session state\<close>

text \<open>
  The reactive variables of the component are the fields of \<open>Session\<close>. The field
  \<^verbatim>\<open>value\<close> of a cell is \<open>cellValue\<close> and the field \<^verbatim>\<open>id\<close> of a history entry is \<open>entryId\<close>
  (both names are taken in Isabelle). \<open>timerInterval\<close> is the variable of that name,
  \<open>None\<close> for \<^verbatim>\<open>null\<close>; \<open>activeTimers\<close> is the browser's table of running interval timers,
  which \<^verbatim>\<open>clearInterval\<close> removes a handle from: time advances while it is not empty.
  \<open>storedHistory\<close> is the item \<^verbatim>\<open>"sudoku-history"\<close> of \<^verbatim>\<open>localStorage\<close>.
\<close>

record Cell =
  cellValue :: int
  isFixed :: bool

datatype Difficulty = tutorial | facil | medio | dificil | expert

record HistoryEntry =
  entryId :: string
  difficulty :: Difficulty
  time :: int
  hintsUsed :: int
  date :: string
  puzzleHash :: string

record Session =
  board :: "Cell list list"
  solution :: grid
  showModal :: bool
  showGiveUpModal :: bool
  showVictoryModal :: bool
  showHistoryModal :: bool
  hasGivenUp :: bool
  selectedDifficulty :: Difficulty
  gameStarted :: bool
  isPaused :: bool
  elapsedTime :: int
  hintsRemaining :: int
  gameHistory :: "HistoryEntry list"
  currentPuzzleHash :: string
  timerInterval :: "nat option"
  activeTimers :: "nat set"
  storedHistory :: "string option"

fun difficultySettings :: "Difficulty \<Rightarrow> nat" where
  "difficultySettings tutorial = 10"
| "difficultySettings facil = 30"
| "difficultySettings medio = 40"
| "difficultySettings dificil = 50"
| "difficultySettings expert = 64"

fun hintsSettings :: "Difficulty \<Rightarrow> int" where
  "hintsSettings tutorial = 7"
| "hintsSettings facil = 5"
| "hintsSettings medio = 3"
| "hintsSettings dificil = 1"
| "hintsSettings expert = 0"

text \<open>
  The values the variables are declared with, and the board \<open>initBoard\<close> builds from a
  puzzle.
\<close>

definition initialSession :: Session where
  "initialSession =
     \<lparr>board = [], solution = [], showModal = True, showGiveUpModal = False,
      showVictoryModal = False, showHistoryModal = False, hasGivenUp = False,
      selectedDifficulty = medio, gameStarted = False, isPaused = False, elapsedTime = 0,
      hintsRemaining = 0, gameHistory = [], currentPuzzleHash = [], timerInterval = None,
      activeTimers = {}, storedHistory = None\<rparr>"

definition toBoard :: "grid \<Rightarrow> Cell list list" where
  "toBoard puzzle = map (map (\<lambda>v. \<lparr>cellValue = v, isFixed = (v \<noteq> 0)\<rparr>)) puzzle"

text \<open>
  \<^verbatim>\<open>if (timerInterval) { clearInterval(timerInterval); timerInterval = null; }\<close>: the
  handle 0 is falsy, like \<^verbatim>\<open>null\<close>.
\<close>

definition stopTimer :: "Session \<Rightarrow> Session" where
  "stopTimer s =
     (case timerInterval s of
        None \<Rightarrow> s
      | Some h \<Rightarrow> if h = 0 then s
                  else s\<lparr>activeTimers := activeTimers s - {h}, timerInterval := None\<rparr>)"

text \<open>
  \<^verbatim>\<open>JSON.parse\<close> is the platform's: it throws \<open>SyntaxError\<close> on a text that is not JSON.
  The model keeps one rule of the grammar, that a JSON text starts, after white space,
  with a character a JSON value can start with, and leaves every other text to the
  parameter \<open>decode\<close>. \<open>loadHistory\<close> has no \<^verbatim>\<open>try\<close>: what \<^verbatim>\<open>JSON.parse\<close> throws leaves the
  function. \<^verbatim>\<open>if (stored)\<close> is false for \<^verbatim>\<open>null\<close> and for the empty string.
\<close>

definition jsonWhitespace :: "char \<Rightarrow> bool" where
  "jsonWhitespace ch = (ch \<in> {CHR '' '', CHR 0x09, CHR 0x0A, CHR 0x0D})"

definition jsonValueStart :: "char \<Rightarrow> bool" where
  "jsonValueStart ch = (ch \<in> set ''{[\"-0123456789tfn'')"

definition jsonParse :: "(string \<Rightarrow> error + 'a) \<Rightarrow> string \<Rightarrow> error + 'a" where
  "jsonParse decode text =
     (case dropWhile jsonWhitespace text of
        [] \<Rightarrow> Inl SyntaxError
      | ch # _ \<Rightarrow> if jsonValueStart ch then decode text else Inl SyntaxError)"

definition loadHistory :: "(string \<Rightarrow> error + HistoryEntry list) \<Rightarrow> Session \<Rightarrow> error + Session" where
  "loadHistory decode s =
     (case storedHistory s of
        None \<Rightarrow> Inr s
      | Some stored \<Rightarrow>
          if stored = [] then Inr s
          else (case jsonParse decode stored of
                  Inl e \<Rightarrow> Inl e
                | Inr entries \<Rightarrow> Inr (s\<lparr>gameHistory := entries\<rparr>)))"

text \<open>
  \<open>saveHistory\<close>: \<^verbatim>\<open>unshift\<close>, the cut to 50 entries, and the write of
  \<^verbatim>\<open>JSON.stringify(gameHistory.value)\<close>, with \<^verbatim>\<open>JSON.stringify\<close> the parameter \<open>stringify\<close>.
\<close>

definition saveHistory :: "(HistoryEntry list \<Rightarrow> string) \<Rightarrow> HistoryEntry \<Rightarrow> Session \<Rightarrow> Session" where
  "saveHistory stringify entry s =
     (let h = entry # gameHistory s;
          h' = (if length h > 50 then take 50 h else h)
      in s\<lparr>gameHistory := h', storedHistory := Some (stringify h')\<rparr>)"

text \<open>
  \<open>checkVictory\<close>: the two passes over \<open>0..8 x 0..8\<close>, each returning at the first cell
  that fails, then the victory. \<open>nowId\<close> is \<^verbatim>\<open>Date.now().toString()\<close> and \<open>nowDate\<close> is
  \<^verbatim>\<open>new Date().toLocaleString("pt-BR")\<close> at the call. \<open>valueAt\<close> is the read
  \<^verbatim>\<open>board.value[row]?.[col]?.value\<close>.
\<close>

definition cells9 :: "(nat \<times> nat) list" where
  "cells9 = List.product [0..<9] [0..<9]"

definition valueAt :: "Cell list list \<Rightarrow> nat \<Rightarrow> nat \<Rightarrow> int option" where
  "valueAt b row col = map_option cellValue (cellAt b row col)"

definition victoryEntry :: "string \<Rightarrow> string \<Rightarrow> Session \<Rightarrow> HistoryEntry" where
  "victoryEntry nowId nowDate s =
     \<lparr>entryId = nowId, difficulty = selectedDifficulty s, time = elapsedTime s,
      hintsUsed = hintsSettings (selectedDifficulty s) - hintsRemaining s,
      date = nowDate, puzzleHash = currentPuzzleHash s\<rparr>"

definition checkVictory :: "string \<Rightarrow> string \<Rightarrow> (HistoryEntry list \<Rightarrow> string) \<Rightarrow> Session \<Rightarrow> Session" where
  "checkVictory nowId nowDate stringify s =
     (if \<not> list_all (\<lambda>(row, col). valueAt (board s) row col \<noteq> Some 0) cells9 then s
      else if \<not> list_all (\<lambda>(row, col). valueAt (board s) row col = cellAt (solution s) row col) cells9 then s
      else saveHistory stringify (victoryEntry nowId nowDate s)
             (stopTimer (s\<lparr>showVictoryModal := True\<rparr>)))"

text \<open>
  \<open>updateCell\<close>: \<open>parsed\<close> is \<^verbatim>\<open>parseInt(target.value)\<close> of the event, \<open>None\<close> for \<^verbatim>\<open>NaN\<close>, and
  \<open>editValue\<close> is \<^verbatim>\<open>parseInt(target.value) || 0\<close>.
\<close>

definition editValue :: "int option \<Rightarrow> int" where
  "editValue parsed = (case parsed of None \<Rightarrow> 0 | Some n \<Rightarrow> n)"

definition updateCell ::
  "string \<Rightarrow> string \<Rightarrow> (HistoryEntry list \<Rightarrow> string) \<Rightarrow> nat \<Rightarrow> nat \<Rightarrow> int option \<Rightarrow> Session \<Rightarrow> Session" where
  "updateCell nowId nowDate stringify row col parsed s =
     (let v = editValue parsed
      in case cellAt (board s) row col of
           None \<Rightarrow> s
         | Some cell \<Rightarrow>
             if \<not> isFixed cell \<and> 0 \<le> v \<and> v \<le> 9
             then checkVictory nowId nowDate stringify
                    (s\<lparr>board := setCell (board s) row col (cell\<lparr>cellValue := v\<rparr>)\<rparr>)
             else s)"

text \<open>
  \<open>useHint\<close>: \<open>randomIndex\<close> is \<^verbatim>\<open>Math.floor(Math.random() * emptyCells.length)\<close>. \<open>reveal\<close>
  is the guarded write both \<open>useHint\<close> and \<open>confirmGiveUp\<close> make at a cell:
  \<^verbatim>\<open>if (cell && solutionValue !== undefined) { cell.value = solutionValue; cell.isFixed = true; }\<close>.
\<close>

definition emptyCells :: "Cell list list \<Rightarrow> (nat \<times> nat) list" where
  "emptyCells b =
     filter (\<lambda>(row, col). case cellAt b row col of
                              None \<Rightarrow> False
                            | Some cell \<Rightarrow> \<not> isFixed cell \<and> cellValue cell = 0) cells9"

definition reveal :: "grid \<Rightarrow> Cell list list \<Rightarrow> nat \<times> nat \<Rightarrow> Cell list list" where
  "reveal sol b p =
     (case p of (row, col) \<Rightarrow>
        (case (cellAt b row col, cellAt sol row col) of
           (Some cell, Some solutionValue) \<Rightarrow>
              setCell b row col (cell\<lparr>cellValue := solutionValue, isFixed := True\<rparr>)
         | _ \<Rightarrow> b))"

definition useHint :: "nat \<Rightarrow> Session \<Rightarrow> Session" where
  "useHint randomIndex s =
     (if hintsRemaining s \<le> 0 then s
      else let cells = emptyCells (board s)
           in if length cells = 0 then s
              else if length cells \<le> randomIndex then s
              else s\<lparr>board := reveal (solution s) (board s) (cells ! randomIndex),
                     hintsRemaining := hintsRemaining s - 1\<rparr>)"

definition askGiveUp :: "Session \<Rightarrow> Session" where
  "askGiveUp s = stopTimer (s\<lparr>showGiveUpModal := True\<rparr>)"

definition confirmGiveUp :: "Session \<Rightarrow> Session" where
  "confirmGiveUp s =
     s\<lparr>showGiveUpModal := False, hasGivenUp := True,
       board := foldl (reveal (solution s)) (board s) cells9\<rparr>"

text \<open>
  The functions that start the timer. \<open>startInterval h\<close> is
  \<^verbatim>\<open>timerInterval = setInterval(...)\<close>, with \<open>h\<close> the handle \<^verbatim>\<open>setInterval\<close> returns: the new
  timer runs and the variable holds its handle. Of the four callers only \<open>startTimer\<close>
  clears the timer the variable holds before it starts one.
\<close>

definition startInterval :: "nat \<Rightarrow> Session \<Rightarrow> Session" where
  "startInterval h s = s\<lparr>activeTimers := insert h (activeTimers s), timerInterval := Some h\<rparr>"

definition startTimer :: "nat \<Rightarrow> Session \<Rightarrow> Session" where
  "startTimer h s =
     startInterval h
       (case timerInterval s of
          None \<Rightarrow> s\<lparr>elapsedTime := 0\<rparr>
        | Some t \<Rightarrow> if t = 0 then s\<lparr>elapsedTime := 0\<rparr>
                    else s\<lparr>elapsedTime := 0, activeTimers := activeTimers s - {t}\<rparr>)"

definition togglePause :: "nat \<Rightarrow> Session \<Rightarrow> Session" where
  "togglePause h s =
     (if \<not> isPaused s then stopTimer (s\<lparr>isPaused := True\<rparr>)
      else startInterval h (s\<lparr>isPaused := False\<rparr>))"

definition toggleHistory :: "nat \<Rightarrow> Session \<Rightarrow> Session" where
  "toggleHistory h s =
     (if \<not> showHistoryModal s \<and> \<not> isPaused s \<and> gameStarted s
        then stopTimer (s\<lparr>showHistoryModal := True\<rparr>)
      else if showHistoryModal s \<and> \<not> isPaused s \<and> gameStarted s
        then startInterval h (s\<lparr>showHistoryModal := False\<rparr>)
      else s\<lparr>showHistoryModal := \<not> showHistoryModal s\<rparr>)"

definition cancelGiveUp :: "nat \<Rightarrow> Session \<Rightarrow> Session" where
  "cancelGiveUp h s =
     (if \<not> isPaused s then startInterval h (s\<lparr>showGiveUpModal := False\<rparr>)
      else s\<lparr>showGiveUpModal := False\<rparr>)"

section \<open>Predicates of the specification\<close>

text \<open>
  A complete grid: 9 rows of 9 cells, and every row, every column and every 3x3 block a
  permutation of 1..9. Block \<open>b\<close> has its origin at \<open>(3 * (b div 3), 3 * (b mod 3))\<close>.
\<close>

definition isPerm19 :: "int list \<Rightarrow> bool" where
  "isPerm19 xs = (mset xs = mset [1..9])"

definition rowOf :: "grid \<Rightarrow> nat \<Rightarrow> int list" where
  "rowOf g r = g ! r"

definition colOf :: "grid \<Rightarrow> nat \<Rightarrow> int list" where
  "colOf g c = map (\<lambda>r. g ! r ! c) [0..<9]"

definition blockOf :: "grid \<Rightarrow> nat \<Rightarrow> int list" where
  "blockOf g b = map (\<lambda>k. g ! (3 * (b div 3) + k div 3) ! (3 * (b mod 3) + k mod 3)) [0..<9]"

definition validSudoku :: "grid \<Rightarrow> bool" where
  "validSudoku g =
     (map length g = replicate 9 9 \<and>
      list_all (\<lambda>i. isPerm19 (rowOf g i) \<and> isPerm19 (colOf g i) \<and> isPerm19 (blockOf g i)) [0..<9])"

text \<open>
  The 9x9 grid of zeros \<open>generateSudoku\<close> starts from.
\<close>

definition emptyGrid :: grid where
  "emptyGrid = replicate 9 (replicate 9 0)"

text \<open>
  A cell a hint can go to: it exists, is not fixed and is empty. The states of the
  session: Playing is a started game that is neither paused, given up nor won. A board
  wins when each of its 81 cells is filled and equals the solution.
\<close>

definition hintable :: "Cell list list \<Rightarrow> nat \<Rightarrow> nat \<Rightarrow> bool" where
  "hintable b r c = (case cellAt b r c of None \<Rightarrow> False | Some cell \<Rightarrow> \<not> isFixed cell \<and> cellValue cell = 0)"

definition playing :: "Session \<Rightarrow> bool" where
  "playing s = (gameStarted s \<and> \<not> isPaused s \<and> \<not> hasGivenUp s \<and> \<not> showVictoryModal s)"

definition boardWins :: "Session \<Rightarrow> bool" where
  "boardWins s =
     list_all (\<lambda>(r, c). cellValue (board s ! r ! c) \<noteq> 0 \<and>
                          cellAt (solution s) r c = Some (cellValue (board s ! r ! c))) cells9"

text \<open>
  What the proofs about \<open>fillGrid\<close> need. Two cells are peers when they share a row, a
  column or a block. A grid is consistent when every filled cell of \<open>0..8 x 0..8\<close> would
  pass \<open>isValid\<close> with its own value were it empty; \<open>digits\<close>: these 81 cells exist and
  hold 0..9. \<open>frame g g'\<close>: \<open>g'\<close> has the shape of \<open>g\<close> and its non-zero cells.
  \<open>extends S g\<close>: \<open>S\<close> agrees with \<open>g\<close> on the cells \<open>g\<close> has filled.
\<close>

definition peer :: "nat \<Rightarrow> nat \<Rightarrow> nat \<Rightarrow> nat \<Rightarrow> bool" where
  "peer r c r' c' = ((r' = r \<and> c' < 9) \<or> (c' = c \<and> r' < 9) \<or> (r' div 3 = r div 3 \<and> c' div 3 = c div 3))"

definition consistent :: "grid \<Rightarrow> bool" where
  "consistent g =
     list_all (\<lambda>(r, c). case cellAt g r c of None \<Rightarrow> True
                          | Some v \<Rightarrow> v = 0 \<or> isValid (setCell g r c 0) r c v)
       (List.product [0..<9] [0..<9])"

definition digits :: "grid \<Rightarrow> bool" where
  "digits g = list_all (\<lambda>(r, c). case cellAt g r c of None \<Rightarrow> False | Some v \<Rightarrow> 0 \<le> v \<and> v \<le> 9)
       (List.product [0..<9] [0..<9])"

definition fillInv :: "grid \<Rightarrow> bool" where
  "fillInv g = (consistent g \<and> digits g)"

definition frame :: "grid \<Rightarrow> grid \<Rightarrow> bool" where
  "frame g g' = (map length g' = map length g \<and>
       (\<forall>r c. cellAt g r c \<noteq> Some 0 \<longrightarrow> cellAt g' r c = cellAt g r c))"

definition extends :: "grid \<Rightarrow> grid \<Rightarrow> bool" where
  "extends S g = (\<forall>r<9. \<forall>c<9. cellAt g r c \<noteq> Some 0 \<longrightarrow> cellAt S r c = cellAt g r c)"

text \<open>
  Every pick of the carver reads a cell of the grid.
\<close>

definition inGrid :: "(nat \<Rightarrow> nat \<times> nat) \<Rightarrow> grid \<Rightarrow> bool" where
  "inGrid pick g = (\<forall>j. cellAt g (fst (pick j)) (snd (pick j)) \<noteq> None)"

text \<open>
  Concrete data for the examples: a complete grid; a grid with no completion (cell
  (0,0) can only hold 2, and then cell (0,1) nothing); a pick sequence that sweeps the
  grid row by row; four sessions on the puzzle that is the complete grid without
  its first cell; and a session on the puzzle without the cells (0,0), (4,4) and (8,8).
\<close>

definition sampleSolution :: grid where
  "sampleSolution =
     [[1, 2, 3, 4, 5, 6, 7, 8, 9],
      [4, 5, 6, 7, 8, 9, 1, 2, 3],
      [7, 8, 9, 1, 2, 3, 4, 5, 6],
      [2, 3, 4, 5, 6, 7, 8, 9, 1],
      [5, 6, 7, 8, 9, 1, 2, 3, 4],
      [8, 9, 1, 2, 3, 4, 5, 6, 7],
      [3, 4, 5, 6, 7, 8, 9, 1, 2],
      [6, 7, 8, 9, 1, 2, 3, 4, 5],
      [9, 1, 2, 3, 4, 5, 6, 7, 8]]"

definition stuckGrid :: grid where
  "stuckGrid =
     [[0, 0, 3, 4, 5, 6, 7, 8, 9],
      [0, 0, 0, 0, 0, 0, 0, 0, 0],
      [0, 0, 0, 0, 0, 0, 0, 0, 0],
      [0, 1, 0, 0, 0, 0, 0, 0, 0],
      [0, 0, 0, 0, 0, 0, 0, 0, 0],
      [0, 0, 0, 0, 0, 0, 0, 0, 0],
      [1, 0, 0, 0, 0, 0, 0, 0, 0],
      [0, 0, 0, 0, 0, 0, 0, 0, 0],
      [0, 0, 0, 0, 0, 0, 0, 0, 0]]"

definition sweep :: "nat \<Rightarrow> nat \<times> nat" where
  "sweep i = (i div 9 mod 9, i mod 9)"

definition playSession :: Session where
  "playSession =
     initialSession\<lparr>board := toBoard (setCell sampleSolution 0 0 0), solution := sampleSolution,
       showModal := False, gameStarted := True, hintsRemaining := 3,
       currentPuzzleHash := hashPuzzle (setCell sampleSolution 0 0 0),
       elapsedTime := 95, timerInterval := Some 7, activeTimers := {7}\<rparr>"

definition pausedSession :: Session where
  "pausedSession = playSession\<lparr>isPaused := True, timerInterval := None, activeTimers := {}\<rparr>"

definition solvedSession :: Session where
  "solvedSession =
     playSession\<lparr>board := setCell (board playSession) 0 0 \<lparr>cellValue = 1, isFixed = False\<rparr>,
       hintsRemaining := 2\<rparr>"

definition hintSession :: Session where
  "hintSession =
     playSession\<lparr>board := toBoard (setCell (setCell (setCell sampleSolution 0 0 0) 4 4 0) 8 8 0)\<rparr>"

definition corruptSession :: Session where
  "corruptSession = initialSession\<lparr>storedHistory := Some ''corrupted''\<rparr>"

section \<open>Reading and writing cells\<close>

lemma map_length_setCell: "map length (setCell g r c v) = map length g"
proof (cases "r < length g")
  case True
  then have "(map length g)[r := length (g ! r)] = map length g"
    by (metis length_map list_update_id nth_map)
  then show ?thesis by (simp add: setCell_def map_update)
next
  case False
  then show ?thesis by (simp add: setCell_def list_update_beyond not_less)
qed

lemma shape9_cellAt:
  assumes "map length b = replicate 9 9" "r < 9" "c < 9"
  shows "cellAt b r c = Some (b ! r ! c)"
proof -
  from assms(1) have len: "length b = 9" by (metis length_map length_replicate)
  with assms(2) have "length (b ! r) = map length b ! r" by simp
  with assms have "length (b ! r) = 9" by simp
  with len assms(2,3) show ?thesis by (simp add: cellAt_def)
qed

lemma all_cells9: "list_all (\<lambda>(r, c). P r c) cells9 \<longleftrightarrow> (\<forall>r<9. \<forall>c<9. P r c)"
  unfolding cells9_def list_all_iff by auto

lemma sampleSolution_complete: "map length sampleSolution = replicate 9 9" "zeros sampleSolution = 0"
  by code_simp+

section \<open>The grid filler\<close>

subsection \<open>A failed call leaves the grid as it was\<close>

lemma frame_refl: "frame g g"
  by (simp add: frame_def)

lemma frame_setCell:
  assumes "cellAt g row col = Some 0" "frame (setCell g row col num) g'"
  shows "frame g g'"
  using assms unfolding frame_def
  by (auto simp: map_length_setCell cellAt_setCell split: if_splits)

lemma fillGrid_keeps:
  "frame g (fst (snd (fillGrid shuf k g))) \<and> (\<not> fst (fillGrid shuf k g) \<longrightarrow> fst (snd (fillGrid shuf k g)) = g)"
  "cellAt g row col = Some 0 \<Longrightarrow>
     frame g (fst (snd (tryNums shuf nums k g row col))) \<and>
     (\<not> fst (tryNums shuf nums k g row col) \<longrightarrow> fst (snd (tryNums shuf nums k g row col)) = g)"
proof (induction shuf k g and shuf nums k g row col rule: fillGrid_tryNums.induct)
  case (1 shuf k g)
  show ?case
  proof (cases "firstEmpty g")
    case None
    then show ?thesis by (simp add: frame_refl)
  next
    case (Some p)
    obtain row col where p: "p = (row, col)" by (cases p)
    from firstEmpty_Some[of g row col] Some p have z: "cellAt g row col = Some 0" by simp
    from 1[OF Some p[symmetric] z] Some p show ?thesis by simp
  qed
next
  case (2 shuf k g row col)
  then show ?case by (simp add: frame_refl)
next
  case (3 shuf num nums k g row col)
  show ?case
  proof (cases "isValid g row col num")
    case False
    with 3 show ?thesis by simp
  next
    case True
    obtain ok g' k' where r: "fillGrid shuf k (setCell g row col num) = (ok, g', k')"
      by (cases "fillGrid shuf k (setCell g row col num)") auto
    from 3(1)[OF True] r have f1: "frame (setCell g row col num) g'"
      and a1: "\<not> ok \<Longrightarrow> g' = setCell g row col num" by simp_all
    show ?thesis
    proof (cases ok)
      case True
      with \<open>isValid g row col num\<close> r frame_setCell[OF 3(4) f1] show ?thesis by simp
    next
      case False
      with a1 3(4) have restored: "setCell g' row col 0 = g"
        by (simp add: setCell_setCell setCell_same)
      from 3(2)[OF True refl r[symmetric] refl False] restored 3(4)
      have "frame g (fst (snd (tryNums shuf nums k' g row col))) \<and>
            (\<not> fst (tryNums shuf nums k' g row col) \<longrightarrow> fst (snd (tryNums shuf nums k' g row col)) = g)"
        by simp
      with True r False restored show ?thesis by simp
    qed
  qed
qed

text \<open>
  C10. Whatever the shuffles are, \<open>fillGrid\<close> keeps the shape of the grid and every cell
  that is not 0 on entry (it writes only to cells that read as 0, and resets a cell it
  gives up to 0), and when it returns false the grid is equal to the grid on entry.
\<close>

theorem fillGrid_frame:
  assumes "fillGrid shuf k g = (ok, g', k')"
  shows "map length g' = map length g
       \<and> (\<forall>r c. cellAt g r c \<noteq> Some 0 \<longrightarrow> cellAt g' r c = cellAt g r c)
       \<and> (\<not> ok \<longrightarrow> g' = g)"
  using fillGrid_keeps(1)[of g shuf k] assms by (simp add: frame_def)

theorem fillGrid_frame_witness:
  "\<not> fst (fillGrid (\<lambda>_. [1..9]) 0 stuckGrid) \<and>
   fst (snd (fillGrid (\<lambda>_. [1..9]) 0 stuckGrid)) = stuckGrid \<and>
   cellAt (fst (snd (fillGrid (\<lambda>_. [1..9]) 0 stuckGrid))) 3 1 = Some 1"
proof -
  obtain ok g' k' where r: "fillGrid (\<lambda>_. [1..9]) 0 stuckGrid = (ok, g', k')"
    by (cases "fillGrid (\<lambda>_. [1..9]) 0 stuckGrid") auto
  have "\<not> fst (fillGrid (\<lambda>_. [1..9]) 0 stuckGrid)" by code_simp
  with r have nok: "\<not> ok" by simp
  have c: "cellAt stuckGrid 3 1 = Some 1" by code_simp
  from fillGrid_frame[OF r] nok c r show ?thesis by simp
qed

subsection \<open>Placements keep the grid consistent\<close>

lemma peer_sym: "r < 9 \<Longrightarrow> c < 9 \<Longrightarrow> r' < 9 \<Longrightarrow> c' < 9 \<Longrightarrow> peer r c r' c' \<Longrightarrow> peer r' c' r c"
  by (auto simp: peer_def)

lemma div3_bound: "r < 9 \<Longrightarrow> r' div 3 = r div 3 \<Longrightarrow> r' < (9::nat)"
proof -
  assume "r < 9" and e: "r' div 3 = r div 3"
  then have "r div 3 < 3" by (simp add: div_less_iff_less_mult)
  with e have "r' div 3 < 3" by simp
  then show "r' < 9" by (simp add: div_less_iff_less_mult)
qed

lemma peer_bound: "r < 9 \<Longrightarrow> c < 9 \<Longrightarrow> peer r c r' c' \<Longrightarrow> r' < 9 \<and> c' < 9"
  unfolding peer_def by (auto dest: div3_bound)

lemma block_index: "(\<exists>i<3. r' = i + (r - r mod 3)) \<longleftrightarrow> r' div 3 = r div (3::nat)"
proof
  assume "\<exists>i<3. r' = i + (r - r mod 3)"
  then obtain i where "i < 3" "r' = i + (r - r mod 3)" by blast
  moreover have "r - r mod 3 = 3 * (r div 3)" by (simp add: minus_mod_eq_mult_div)
  ultimately show "r' div 3 = r div 3" by simp
next
  assume e: "r' div 3 = r div 3"
  have "r - r mod 3 = 3 * (r div 3)" by (simp add: minus_mod_eq_mult_div)
  with e div_mult_mod_eq[of r' 3] have "r' = r' mod 3 + (r - r mod 3)" by simp
  moreover have "r' mod 3 < 3" by simp
  ultimately show "\<exists>i<3. r' = i + (r - r mod 3)" by blast
qed

lemma isValid_iff:
  "isValid g r c n \<longleftrightarrow> (\<forall>r' c'. peer r c r' c' \<longrightarrow> cellAt g r' c' \<noteq> Some n)"
proof -
  have blk: "(\<forall>i<3. \<forall>j<3. cellAt g (i + (r - r mod 3)) (j + (c - c mod 3)) \<noteq> Some n)
      \<longleftrightarrow> (\<forall>r' c'. r' div 3 = r div 3 \<and> c' div 3 = c div 3 \<longrightarrow> cellAt g r' c' \<noteq> Some n)"
    (is "?L \<longleftrightarrow> ?R")
  proof
    assume l: ?L
    show ?R
    proof (intro allI impI)
      fix r' c' assume "r' div 3 = r div 3 \<and> c' div 3 = c div 3"
      then obtain i j where "i < 3" "r' = i + (r - r mod 3)" "j < 3" "c' = j + (c - c mod 3)"
        using block_index[of r' r] block_index[of c' c] by blast
      with l show "cellAt g r' c' \<noteq> Some n" by blast
    qed
  next
    assume rr: ?R
    show ?L
    proof (intro allI impI)
      fix i j :: nat assume "i < 3" "j < 3"
      then have "(i + (r - r mod 3)) div 3 = r div 3" "(j + (c - c mod 3)) div 3 = c div 3"
        using block_index[of "i + (r - r mod 3)" r] block_index[of "j + (c - c mod 3)" c] by blast+
      with rr show "cellAt g (i + (r - r mod 3)) (j + (c - c mod 3)) \<noteq> Some n" by blast
    qed
  qed
  have "isValid g r c n \<longleftrightarrow>
        (\<forall>x<9. cellAt g r x \<noteq> Some n) \<and> (\<forall>x<9. cellAt g x c \<noteq> Some n) \<and>
        (\<forall>i<3. \<forall>j<3. cellAt g (i + (r - r mod 3)) (j + (c - c mod 3)) \<noteq> Some n)"
    by (simp add: isValid_def Let_def list_all_iff Ball_def)
  also have "\<dots> \<longleftrightarrow> (\<forall>r' c'. peer r c r' c' \<longrightarrow> cellAt g r' c' \<noteq> Some n)"
    unfolding blk peer_def by blast
  finally show ?thesis .
qed

lemma consistent_iff:
  "consistent g \<longleftrightarrow>
     (\<forall>r<9. \<forall>c<9. \<forall>v. cellAt g r c = Some v \<longrightarrow> v \<noteq> 0 \<longrightarrow> isValid (setCell g r c 0) r c v)"
  unfolding consistent_def list_all_iff by (auto simp: Ball_def split: option.splits)

lemma digits_iff:
  "digits g \<longleftrightarrow> (\<forall>r<9. \<forall>c<9. \<exists>v. cellAt g r c = Some v \<and> 0 \<le> v \<and> v \<le> 9)"
  unfolding digits_def list_all_iff by (fastforce simp: Ball_def split: option.splits)

lemma consistent_setCell:
  assumes con: "consistent g" and z: "cellAt g row col = Some 0" and rc: "row < 9" "col < 9"
    and v: "isValid g row col num"
  shows "consistent (setCell g row col num)"
  unfolding consistent_iff
proof (intro allI impI)
  fix r c v
  assume r: "r < 9" and c: "c < 9" and cv: "cellAt (setCell g row col num) r c = Some v" and v0: "v \<noteq> 0"
  show "isValid (setCell (setCell g row col num) r c 0) r c v"
  proof (cases "r = row \<and> c = col")
    case True
    with cv z have "v = num" by (simp add: cellAt_setCell)
    with True z v show ?thesis by (simp add: setCell_setCell setCell_same)
  next
    case False
    with cv have gv: "cellAt g r c = Some v" by (auto simp: cellAt_setCell split: if_splits)
    from con r c gv v0 have old: "\<forall>r' c'. peer r c r' c' \<longrightarrow> cellAt (setCell g r c 0) r' c' \<noteq> Some v"
      unfolding consistent_iff isValid_iff by blast
    show ?thesis
      unfolding isValid_iff
    proof (intro allI impI)
      fix r' c' assume p: "peer r c r' c'"
      show "cellAt (setCell (setCell g row col num) r c 0) r' c' \<noteq> Some v"
      proof (cases "r' = row \<and> c' = col")
        case True
        with p rc r c have "peer row col r c" by (auto intro: peer_sym)
        with v gv have "v \<noteq> num" unfolding isValid_iff by blast
        with True False v0 show ?thesis by (auto simp: cellAt_setCell)
      next
        case False
        with old p v0 show ?thesis by (auto simp: cellAt_setCell split: if_splits)
      qed
    qed
  qed
qed

lemma digits_setCell:
  "digits g \<Longrightarrow> 0 \<le> num \<Longrightarrow> num \<le> 9 \<Longrightarrow> digits (setCell g row col num)"
  unfolding digits_iff by (auto simp: cellAt_setCell)

lemma fillGrid_sound:
  "(\<forall>k. set (shuf k) \<subseteq> {1..9}) \<Longrightarrow> fillInv g \<Longrightarrow> fst (fillGrid shuf k g) \<Longrightarrow>
     fillInv (fst (snd (fillGrid shuf k g))) \<and> firstEmpty (fst (snd (fillGrid shuf k g))) = None"
  "(\<forall>k. set (shuf k) \<subseteq> {1..9}) \<Longrightarrow> fillInv g \<Longrightarrow> cellAt g row col = Some 0 \<Longrightarrow> row < 9 \<Longrightarrow> col < 9 \<Longrightarrow>
     set nums \<subseteq> {1..9} \<Longrightarrow> fst (tryNums shuf nums k g row col) \<Longrightarrow>
     fillInv (fst (snd (tryNums shuf nums k g row col))) \<and>
     firstEmpty (fst (snd (tryNums shuf nums k g row col))) = None"
proof (induction shuf k g and shuf nums k g row col rule: fillGrid_tryNums.induct)
  case (1 shuf k g)
  show ?case
  proof (cases "firstEmpty g")
    case None
    with 1 show ?thesis by simp
  next
    case (Some p)
    obtain row col where p: "p = (row, col)" by (cases p)
    from firstEmpty_Some[of g row col] Some p
    have z: "cellAt g row col = Some 0" "row < 9" "col < 9" by simp_all
    from 1(2) have "set (shuf k) \<subseteq> {1..9}" by blast
    from 1(1)[OF Some p[symmetric] 1(2,3) z this] 1(4) Some p show ?thesis by simp
  qed
next
  case (2 shuf k g row col)
  then show ?case by simp
next
  case (3 shuf num nums k g row col)
  from 3(9) have num: "1 \<le> num" "num \<le> 9" and nums: "set nums \<subseteq> {1..9}" by auto
  show ?case
  proof (cases "isValid g row col num")
    case False
    from 3(3)[OF False 3(4,5,6,7,8) nums] False 3(10) show ?thesis by simp
  next
    case True
    obtain ok g' k' where r: "fillGrid shuf k (setCell g row col num) = (ok, g', k')"
      by (cases "fillGrid shuf k (setCell g row col num)") auto
    from 3(5) True 3(6,7,8) num have inv1: "fillInv (setCell g row col num)"
      by (simp add: fillInv_def consistent_setCell digits_setCell)
    show ?thesis
    proof (cases ok)
      case True
      from 3(1)[OF \<open>isValid g row col num\<close> 3(4) inv1] r True \<open>isValid g row col num\<close>
      show ?thesis by simp
    next
      case False
      from fillGrid_keeps(1)[of "setCell g row col num" shuf k] r False
      have "g' = setCell g row col num" by simp
      with 3(6) have restored: "setCell g' row col 0 = g"
        by (simp add: setCell_setCell setCell_same)
      from 3(10) True r False restored have "fst (tryNums shuf nums k' g row col)" by simp
      with 3(2)[OF True refl r[symmetric] refl False 3(4)] restored 3(5,6,7,8) nums
      have "fillInv (fst (snd (tryNums shuf nums k' g row col))) \<and>
            firstEmpty (fst (snd (tryNums shuf nums k' g row col))) = None" by simp
      with True r False restored show ?thesis by simp
    qed
  qed
qed

subsection \<open>A full consistent grid is complete\<close>

lemma perm19I:
  assumes "distinct xs" "length xs = 9" "set xs \<subseteq> {1..9::int}"
  shows "isPerm19 xs"
proof -
  have "card (set xs) = 9" using assms(1,2) by (simp add: distinct_card)
  then have "set xs = {1..9}" using assms(3) by (intro card_subset_eq) simp_all
  then have "set xs = set [1..9]" by simp
  moreover have "distinct [1..9::int]" by simp
  ultimately show ?thesis
    unfolding isPerm19_def using assms(1) set_eq_iff_mset_eq_distinct by blast
qed

lemma perm19_mapI:
  assumes inj: "\<And>i j. i < 9 \<Longrightarrow> j < 9 \<Longrightarrow> i \<noteq> j \<Longrightarrow> f i \<noteq> f j"
    and rng: "\<And>i. i < 9 \<Longrightarrow> 1 \<le> f i \<and> f i \<le> (9::int)"
  shows "isPerm19 (map f [0..<9])"
proof (rule perm19I)
  have "inj_on f (set [0..<9])"
  proof (rule inj_onI)
    fix x y assume "x \<in> set [0..<9]" "y \<in> set [0..<9]" "f x = f y"
    with inj[of x y] show "x = y" by auto
  qed
  then show "distinct (map f [0..<9])" by (simp add: distinct_map)
  show "length (map f [0..<9]) = 9" by simp
  show "set (map f [0..<9]) \<subseteq> {1..9}" using rng by auto
qed

lemma firstEmpty_None: "firstEmpty g = None \<longleftrightarrow> (\<forall>r<9. \<forall>c<9. cellAt g r c \<noteq> Some 0)"
  unfolding firstEmpty_def find_None_iff by auto

lemma full_valid:
  assumes shape: "map length g = replicate 9 9" and con: "consistent g" and dig: "digits g"
    and full: "firstEmpty g = None"
  shows "validSudoku g"
proof -
  from shape have len: "length g = 9" by (metis length_map length_replicate)
  have rowlen: "length (g ! r) = 9" if "r < 9" for r
  proof -
    from that len have "length (g ! r) = map length g ! r" by simp
    with shape that show ?thesis by simp
  qed
  have cell: "cellAt g r c = Some (g ! r ! c)" if "r < 9" "c < 9" for r c
    using that len rowlen by (simp add: cellAt_def)
  have rng: "1 \<le> g ! r ! c \<and> g ! r ! c \<le> 9" if "r < 9" "c < 9" for r c
  proof -
    from dig that cell have "0 \<le> g ! r ! c \<and> g ! r ! c \<le> 9" unfolding digits_iff by fastforce
    moreover from full that cell have "g ! r ! c \<noteq> 0" unfolding firstEmpty_None by fastforce
    ultimately show ?thesis by simp
  qed
  have diff: "g ! r ! c \<noteq> g ! r' ! c'"
    if "r < 9" "c < 9" "r' < 9" "c' < 9" "peer r c r' c'" "(r, c) \<noteq> (r', c')" for r c r' c'
  proof -
    from rng[OF that(1,2)] have "g ! r ! c \<noteq> 0" by simp
    with con that(1,2) cell[OF that(1,2)]
    have "isValid (setCell g r c 0) r c (g ! r ! c)" unfolding consistent_iff by blast
    with that(5) have "cellAt (setCell g r c 0) r' c' \<noteq> Some (g ! r ! c)"
      unfolding isValid_iff by blast
    with that(6) cell[OF that(3,4)] show ?thesis by (auto simp: cellAt_setCell split: if_splits)
  qed
  have rows: "isPerm19 (rowOf g i)" if i: "i < 9" for i
  proof -
    have "g ! i = map (\<lambda>c. g ! i ! c) [0..<9]"
      using rowlen[OF i] by (intro nth_equalityI) simp_all
    moreover have "isPerm19 (map (\<lambda>c. g ! i ! c) [0..<9])"
    proof (rule perm19_mapI)
      fix c c' :: nat assume "c < 9" "c' < 9" "c \<noteq> c'"
      with i show "g ! i ! c \<noteq> g ! i ! c'" by (intro diff) (simp_all add: peer_def)
    qed (simp add: rng i)
    ultimately show ?thesis by (simp add: rowOf_def)
  qed
  have cols: "isPerm19 (colOf g i)" if i: "i < 9" for i
    unfolding colOf_def
  proof (rule perm19_mapI)
    fix r r' :: nat assume "r < 9" "r' < 9" "r \<noteq> r'"
    with i show "g ! r ! i \<noteq> g ! r' ! i" by (intro diff) (simp_all add: peer_def)
  qed (simp add: rng i)
  have blocks: "isPerm19 (blockOf g b)" if b: "b < 9" for b
    unfolding blockOf_def
  proof (rule perm19_mapI)
    fix i j :: nat assume ij: "i < 9" "j < 9" "i \<noteq> j"
    let ?r = "\<lambda>k. 3 * (b div 3) + k div 3" and ?c = "\<lambda>k. 3 * (b mod 3) + k mod 3"
    from b have bd: "b div 3 < 3" by (simp add: div_less_iff_less_mult)
    from ij have kd: "i div 3 < 3" "j div 3 < 3" by (simp_all add: div_less_iff_less_mult)
    have bnd: "?r i < 9" "?c i < 9" "?r j < 9" "?c j < 9"
      using bd kd by simp_all
    have "peer (?r i) (?c i) (?r j) (?c j)" using kd by (simp add: peer_def)
    moreover have "(?r i, ?c i) \<noteq> (?r j, ?c j)"
    proof
      assume "(?r i, ?c i) = (?r j, ?c j)"
      then have "i div 3 = j div 3" "i mod 3 = j mod 3" by simp_all
      then have "i = j" by (metis div_mult_mod_eq)
      with ij show False by simp
    qed
    ultimately show "g ! ?r i ! ?c i \<noteq> g ! ?r j ! ?c j" using bnd by (intro diff)
  next
    fix i :: nat assume i: "i < 9"
    from b have bd: "b div 3 < 3" by (simp add: div_less_iff_less_mult)
    from i have kd: "i div 3 < 3" by (simp add: div_less_iff_less_mult)
    show "1 \<le> g ! (3 * (b div 3) + i div 3) ! (3 * (b mod 3) + i mod 3) \<and>
          g ! (3 * (b div 3) + i div 3) ! (3 * (b mod 3) + i mod 3) \<le> 9"
      using bd kd by (intro rng) simp_all
  qed
  show ?thesis
    unfolding validSudoku_def list_all_iff using shape rows cols blocks by simp
qed

subsection \<open>The search finds a completion when there is one\<close>

lemma extends_setCell:
  assumes "extends S g" "cellAt S row col = Some num"
  shows "extends S (setCell g row col num)"
  using assms unfolding extends_def by (auto simp: cellAt_setCell)

lemma solution_rejects:
  assumes con: "consistent S" and ext: "extends S g" and z: "cellAt g row col = Some 0"
    and rc: "row < 9" "col < 9" and sv: "cellAt S row col = Some num" and n0: "num \<noteq> 0"
  shows "isValid g row col num"
  unfolding isValid_iff
proof (intro allI impI)
  fix r' c' assume p: "peer row col r' c'"
  show "cellAt g r' c' \<noteq> Some num"
  proof
    assume gn: "cellAt g r' c' = Some num"
    with z n0 have ne: "\<not> (r' = row \<and> c' = col)" by auto
    from peer_bound[OF rc p] have b: "r' < 9" "c' < 9" by simp_all
    with ext gn n0 have "cellAt S r' c' = Some num" unfolding extends_def by auto
    with ne have "cellAt (setCell S row col 0) r' c' = Some num" by (auto simp: cellAt_setCell)
    moreover from con rc sv n0 have "isValid (setCell S row col 0) row col num"
      unfolding consistent_iff by blast
    ultimately show False using p unfolding isValid_iff by blast
  qed
qed

lemma fillGrid_complete:
  "(\<forall>k. {1..9} \<subseteq> set (shuf k)) \<Longrightarrow> consistent S \<Longrightarrow> digits S \<Longrightarrow> firstEmpty S = None \<Longrightarrow>
     extends S g \<Longrightarrow> fst (fillGrid shuf k g)"
  "(\<forall>k. {1..9} \<subseteq> set (shuf k)) \<Longrightarrow> consistent S \<Longrightarrow> digits S \<Longrightarrow> firstEmpty S = None \<Longrightarrow>
     extends S g \<Longrightarrow> cellAt g row col = Some 0 \<Longrightarrow> row < 9 \<Longrightarrow> col < 9 \<Longrightarrow>
     (\<exists>v\<in>set nums. cellAt S row col = Some v) \<Longrightarrow> fst (tryNums shuf nums k g row col)"
proof (induction shuf k g and shuf nums k g row col rule: fillGrid_tryNums.induct)
  case (1 shuf k g)
  show ?case
  proof (cases "firstEmpty g")
    case None
    then show ?thesis by simp
  next
    case (Some p)
    obtain row col where p: "p = (row, col)" by (cases p)
    from firstEmpty_Some[of g row col] Some p
    have z: "cellAt g row col = Some 0" "row < 9" "col < 9" by simp_all
    from 1(4) z(2,3) obtain v where v: "cellAt S row col = Some v" "0 \<le> v" "v \<le> 9"
      unfolding digits_iff by blast
    from 1(5) z(2,3) v(1) have "v \<noteq> 0" unfolding firstEmpty_None by auto
    with v have "v \<in> {1..9}" by simp
    with 1(2) have "v \<in> set (shuf k)" by blast
    with v(1) have "\<exists>v\<in>set (shuf k). cellAt S row col = Some v" by blast
    from 1(1)[OF Some p[symmetric] 1(2,3,4,5,6) z this] Some p show ?thesis by simp
  qed
next
  case (2 shuf k g row col)
  then show ?case by simp
next
  case (3 shuf num nums k g row col)
  from 3(12) obtain v where v: "v \<in> set (num # nums)" "cellAt S row col = Some v" by blast
  from 3(6) 3(10,11) v(2) have v0: "v \<noteq> 0"
    using 3(7) unfolding firstEmpty_None by auto
  show ?case
  proof (cases "isValid g row col num")
    case False
    from solution_rejects[OF 3(5) 3(8) 3(9) 3(10) 3(11) v(2) v0] False have "v \<noteq> num" by auto
    with v have "\<exists>v\<in>set nums. cellAt S row col = Some v" by auto
    from 3(3)[OF False 3(4,5,6,7,8,9,10,11) this] False show ?thesis by simp
  next
    case True
    obtain ok g' k' where r: "fillGrid shuf k (setCell g row col num) = (ok, g', k')"
      by (cases "fillGrid shuf k (setCell g row col num)") auto
    show ?thesis
    proof (cases ok)
      case True
      with \<open>isValid g row col num\<close> r show ?thesis by simp
    next
      case False
      from fillGrid_keeps(1)[of "setCell g row col num" shuf k] r False
      have "g' = setCell g row col num" by simp
      with 3(9) have restored: "setCell g' row col 0 = g"
        by (simp add: setCell_setCell setCell_same)
      have "v \<noteq> num"
      proof
        assume "v = num"
        with v(2) 3(8) have "extends S (setCell g row col num)" by (simp add: extends_setCell)
        from 3(1)[OF True 3(4,5,6,7) this] r False show False by simp
      qed
      with v have "\<exists>v\<in>set nums. cellAt S row col = Some v" by auto
      with 3(2)[OF True refl r[symmetric] refl False 3(4,5,6,7)] restored 3(8,9,10,11)
      have "fst (tryNums shuf nums k' g row col)" by simp
      with True r False restored show ?thesis by simp
    qed
  qed
qed

lemma sampleSolution_ok:
  "consistent sampleSolution" "digits sampleSolution" "firstEmpty sampleSolution = None"
  by code_simp+

lemma extends_emptyGrid: "extends S emptyGrid"
  unfolding extends_def emptyGrid_def by (auto simp: cellAt_def)

lemma emptyGrid_inv: "fillInv emptyGrid" "map length emptyGrid = replicate 9 9"
  by code_simp+

text \<open>
  C1. On the 9x9 grid of zeros \<open>fillGrid\<close> returns (it is a total function: its
  termination is proved above), returns true, and leaves a grid in which every row,
  every column and every 3x3 block is a permutation of 1..9. This holds for every
  sequence of shuffles, each a permutation of 1..9, and from any value of the counter.
\<close>

theorem fillGrid_emptyGrid:
  assumes "\<forall>k. mset (shuf k) = mset [1..9]"
  shows "\<exists>g' k'. fillGrid shuf k emptyGrid = (True, g', k') \<and> validSudoku g'"
proof -
  have s: "set (shuf k) = {1..9}" for k
  proof -
    from assms have "set (shuf k) = set [1..9]" by (metis mset_eq_setD)
    then show ?thesis by simp
  qed
  then have sub: "\<forall>k. set (shuf k) \<subseteq> {1..9}" and sup: "\<forall>k. {1..9} \<subseteq> set (shuf k)" by simp_all
  obtain ok g' k' where r: "fillGrid shuf k emptyGrid = (ok, g', k')"
    by (cases "fillGrid shuf k emptyGrid") auto
  from fillGrid_complete(1)[OF sup sampleSolution_ok extends_emptyGrid, of k] r
  have ok: "ok" by simp
  from fillGrid_sound(1)[OF sub emptyGrid_inv(1), of k] r ok
  have inv: "fillInv g'" and full: "firstEmpty g' = None" by simp_all
  from fillGrid_keeps(1)[of emptyGrid shuf k] r emptyGrid_inv(2)
  have shape: "map length g' = replicate 9 9" by (simp add: frame_def)
  from full_valid[OF shape _ _ full] inv have "validSudoku g'" by (simp add: fillInv_def)
  with r ok show ?thesis by simp
qed

theorem fillGrid_emptyGrid_witness:
  "(\<forall>k. mset ((\<lambda>_. rev [1..9]) k) = mset [1..9]) \<and>
   (\<exists>g' k'. fillGrid (\<lambda>_. rev [1..9]) 0 emptyGrid = (True, g', k') \<and> validSudoku g')"
proof -
  have h: "\<forall>k. mset ((\<lambda>_. rev [1..9]) k) = mset [1..9]" by simp
  from fillGrid_emptyGrid[OF h, of 0] h show ?thesis by blast
qed

section \<open>The puzzle carver\<close>

lemma count_filter_length: "count_list row (0::int) + length (filter (\<lambda>v. v \<noteq> 0) row) = length row"
  by (induction row) auto

lemma zeros_nonZeros: "zeros g + nonZeros g = sum_list (map length g)"
  unfolding zeros_def nonZeros_def
proof (induction g)
  case Nil
  show ?case by simp
next
  case (Cons row g)
  with count_filter_length[of row] show ?case by simp
qed

lemma zeros_0_cell:
  assumes "zeros g = 0"
  shows "cellAt g r c \<noteq> Some 0"
proof
  assume a: "cellAt g r c = Some 0"
  then have r: "r < length g" and c: "c < length (g ! r)" and v: "g ! r ! c = 0"
    by (auto simp: cellAt_def split: if_splits)
  from assms r have "count_list (g ! r) 0 = 0" unfolding zeros_def by (auto simp: sum_list_eq_0_iff)
  then have "0 \<notin> set (g ! r)" by (simp add: count_list_0_iff)
  with c v show False by (metis nth_mem)
qed

lemma writeCell_in: "cellAt g r c \<noteq> None \<Longrightarrow> writeCell g r c v = Inr (setCell g r c v)"
  by (auto simp: writeCell_def cellAt_def split: if_splits)

lemma inGrid_setCell: "inGrid pick g \<Longrightarrow> inGrid pick (setCell g r c v)"
  by (auto simp: inGrid_def cellAt_setCell)

lemma inGrid_9x9:
  assumes "map length g = replicate 9 9" "\<forall>i. fst (pick i) < 9 \<and> snd (pick i) < 9"
  shows "inGrid pick (g :: grid)"
  unfolding inGrid_def using shape9_cellAt[OF assms(1)] assms(2) by simp

lemma removeLoop_returns:
  assumes "inGrid pick g"
    and "cnt - removed \<le> card {p \<in> pick ` {i..<i + n}. cellAt g (fst p) (snd p) \<noteq> Some 0}"
  shows "\<exists>g' m. removeLoop pick cnt removed i g = Some (Inr (g', m))"
  using assms
proof (induction n arbitrary: i g removed)
  case 0
  then have "\<not> removed < cnt" by simp
  then show ?case by (subst removeLoop.simps) simp
next
  case (Suc n)
  show ?case
  proof (cases "removed < cnt")
    case False
    then show ?thesis by (subst removeLoop.simps) simp
  next
    case True
    obtain row col where p: "pick i = (row, col)" by (cases "pick i")
    let ?A = "{p \<in> pick ` {i..<i + Suc n}. cellAt g (fst p) (snd p) \<noteq> Some 0}"
    have finA: "finite ?A" by simp
    show ?thesis
    proof (cases "cellAt g row col = Some 0")
      case z: True
      let ?B = "{p \<in> pick ` {Suc i..<Suc i + n}. cellAt g (fst p) (snd p) \<noteq> Some 0}"
      have "?A \<subseteq> ?B"
      proof
        fix q assume "q \<in> ?A"
        then obtain j where j: "i \<le> j" "j < i + Suc n" "q = pick j"
          and nz: "cellAt g (fst q) (snd q) \<noteq> Some 0" by auto
        from nz z p j(3) have "j \<noteq> i" by auto
        with j nz show "q \<in> ?B" by auto
      qed
      then have "card ?A \<le> card ?B" by (intro card_mono) simp_all
      with Suc.prems(2) have "cnt - removed \<le> card ?B" by simp
      from Suc.IH[OF Suc.prems(1) this] True p z show ?thesis
        by (subst removeLoop.simps) simp
    next
      case nz: False
      let ?g = "setCell g row col 0"
      let ?B = "{p \<in> pick ` {Suc i..<Suc i + n}. cellAt ?g (fst p) (snd p) \<noteq> Some 0}"
      from Suc.prems(1) p have ex: "cellAt g row col \<noteq> None"
        unfolding inGrid_def by (metis fst_conv snd_conv)
      have "?A \<subseteq> insert (row, col) ?B"
      proof
        fix q assume "q \<in> ?A"
        then obtain j where j: "i \<le> j" "j < i + Suc n" "q = pick j"
          and qz: "cellAt g (fst q) (snd q) \<noteq> Some 0" by auto
        show "q \<in> insert (row, col) ?B"
        proof (cases "q = (row, col)")
          case True
          then show ?thesis by simp
        next
          case False
          with j p have "j \<noteq> i" by auto
          moreover from False qz have "cellAt ?g (fst q) (snd q) \<noteq> Some 0"
            by (cases q) (auto simp: cellAt_setCell)
          ultimately show ?thesis using j by auto
        qed
      qed
      then have "card ?A \<le> card (insert (row, col) ?B)" by (intro card_mono) simp_all
      also have "\<dots> \<le> Suc (card ?B)" by (simp add: card_insert_if)
      finally have "cnt - (removed + 1) \<le> card ?B" using Suc.prems(2) by simp
      from Suc.IH[OF inGrid_setCell[OF Suc.prems(1)] this] True p nz writeCell_in[OF ex]
      show ?thesis by (subst removeLoop.simps) simp
    qed
  qed
qed

lemma removeLoop_result:
  assumes "removeLoop pick cnt removed i g = Some res"
    and "inGrid pick g"
    and "\<forall>j<i. cellAt g (fst (pick j)) (snd (pick j)) = Some 0"
    and "removed \<le> card (pick ` {..<i})"
  shows "\<exists>g' m. res = Inr (g', m) \<and> map length g' = map length g \<and>
           (removed \<le> cnt \<longrightarrow> zeros g' + removed = zeros g + cnt) \<and>
           (\<forall>r c. cellAt g' r c \<noteq> Some 0 \<longrightarrow> cellAt g' r c = cellAt g r c) \<and>
           (removed \<le> cnt \<longrightarrow> cnt \<le> card (pick ` {..<m}))"
  using assms
proof (induction pick cnt removed i g res rule: removeLoop.raw_induct[rotated 1, consumes 1])
  case (1 rl pick cnt removed i g res)
  show ?case
  proof (cases "removed < cnt")
    case False
    with 1(2) have "res = Inr (g, i)" by simp
    with False 1(5) show ?thesis by auto
  next
    case True
    obtain row col where p: "pick i = (row, col)" by (cases "pick i")
    from 1(3) p have ex: "cellAt g row col \<noteq> None"
      unfolding inGrid_def by (metis fst_conv snd_conv)
    show ?thesis
    proof (cases "cellAt g row col = Some 0")
      case z: True
      with 1(2) True p have call: "rl pick cnt removed (i + 1) g = Some res" by simp
      have prev: "\<forall>j<i + 1. cellAt g (fst (pick j)) (snd (pick j)) = Some 0"
        using 1(4) p z by (auto simp: less_Suc_eq)
      have "pick ` {..<i} \<subseteq> pick ` {..<i + 1}" by auto
      then have "card (pick ` {..<i}) \<le> card (pick ` {..<i + 1})" by (intro card_mono) simp_all
      with 1(5) have "removed \<le> card (pick ` {..<i + 1})" by simp
      from 1(1)[OF call 1(3) prev this] show ?thesis .
    next
      case nz: False
      let ?g = "setCell g row col 0"
      from 1(2) True p nz writeCell_in[OF ex]
      have call: "rl pick cnt (removed + 1) (i + 1) ?g = Some res" by simp
      have prev: "\<forall>j<i + 1. cellAt ?g (fst (pick j)) (snd (pick j)) = Some 0"
        using 1(4) p ex by (auto simp: less_Suc_eq cellAt_setCell)
      have "(row, col) \<notin> pick ` {..<i}"
      proof
        assume "(row, col) \<in> pick ` {..<i}"
        then obtain j where "j < i" "pick j = (row, col)" by auto
        with 1(4) nz show False by (metis fst_conv snd_conv)
      qed
      moreover have "pick ` {..<i + 1} = insert (row, col) (pick ` {..<i})"
        using p by (simp add: lessThan_Suc)
      ultimately have "card (pick ` {..<i + 1}) = Suc (card (pick ` {..<i}))" by simp
      with 1(5) have cov: "removed + 1 \<le> card (pick ` {..<i + 1})" by simp
      from 1(1)[OF call inGrid_setCell[OF 1(3)] prev cov]
      obtain g' m where r: "res = Inr (g', m)" "map length g' = map length ?g"
        "removed + 1 \<le> cnt \<longrightarrow> zeros g' + (removed + 1) = zeros ?g + cnt"
        "\<forall>r c. cellAt g' r c \<noteq> Some 0 \<longrightarrow> cellAt g' r c = cellAt ?g r c"
        "removed + 1 \<le> cnt \<longrightarrow> cnt \<le> card (pick ` {..<m})" by blast
      from ex obtain x where x: "cellAt g row col = Some x" by auto
      with nz have "x \<noteq> 0" by simp
      with zeros_setCell[OF x, of 0] have zs: "zeros ?g = zeros g + 1" by simp
      have keep: "\<forall>r c. cellAt g' r c \<noteq> Some 0 \<longrightarrow> cellAt g' r c = cellAt g r c"
      proof (intro allI impI)
        fix r c assume a: "cellAt g' r c \<noteq> Some 0"
        with r(4) have e: "cellAt g' r c = cellAt ?g r c" by blast
        with a ex show "cellAt g' r c = cellAt g r c" by (auto simp: cellAt_setCell split: if_splits)
      qed
      from r(1,2,3,5) zs True keep show ?thesis by (auto simp: map_length_setCell)
    qed
  qed
qed

lemma removeNumbers_returns:
  assumes "map length g = replicate 9 9" "zeros g = 0"
    and "\<forall>i. fst (pick i) < 9 \<and> snd (pick i) < 9"
    and "cnt \<le> card (pick ` {..<n})"
  shows "\<exists>g' m. removeNumbers pick g cnt = Some (Inr (g', m))"
proof -
  have "{p \<in> pick ` {0..<0 + n}. cellAt g (fst p) (snd p) \<noteq> Some 0} = pick ` {..<n}"
    using zeros_0_cell[OF assms(2)] by (auto simp: lessThan_atLeast0)
  with assms(4) have "cnt - 0 \<le> card {p \<in> pick ` {0..<0 + n}. cellAt g (fst p) (snd p) \<noteq> Some 0}"
    by simp
  from removeLoop_returns[OF inGrid_9x9[OF assms(1,3)] this] show ?thesis
    by (simp add: removeNumbers_def)
qed

lemma removeNumbers_result:
  assumes "map length g = replicate 9 9"
    and "\<forall>i. fst (pick i) < 9 \<and> snd (pick i) < 9"
    and "removeNumbers pick g cnt = Some res"
  shows "\<exists>g' m. res = Inr (g', m) \<and> map length g' = map length g \<and> zeros g' = zeros g + cnt \<and>
           (\<forall>r c. cellAt g' r c \<noteq> Some 0 \<longrightarrow> cellAt g' r c = cellAt g r c) \<and>
           cnt \<le> card (pick ` {..<m})"
  using removeLoop_result[OF assms(3)[unfolded removeNumbers_def] inGrid_9x9[OF assms(1,2)]]
  by simp

lemma sweep_range: "\<forall>i. fst (sweep i) < 9 \<and> snd (sweep i) < 9"
  by (simp add: sweep_def)

lemma sweep_cover: "card (sweep ` {..<3}) = 3"
proof -
  have "{..<3::nat} = {0, 1, 2}" by auto
  then have "sweep ` {..<3} = {(0, 0), (0, 1), (0, 2)}" by (simp add: sweep_def)
  then show ?thesis by simp
qed

text \<open>
  C3. On a 9x9 grid with no zero cell and \<open>cnt \<le> 81\<close>, with picks in \<open>0..8\<close>:
  \<open>removeNumbers\<close> returns as soon as the picks visit \<open>cnt\<close> distinct cells, and whenever
  it returns it has raised no error and left a 9x9 grid with exactly \<open>cnt\<close> zero cells
  and \<open>81 - cnt\<close> non-zero cells, each of which has the value it had before.
\<close>

theorem removeNumbers_carves:
  assumes "map length g = replicate 9 9" "zeros g = 0" "cnt \<le> 81"
    and "\<forall>i. fst (pick i) < 9 \<and> snd (pick i) < 9"
  shows "(cnt \<le> card (pick ` {..<n}) \<longrightarrow> (\<exists>g' m. removeNumbers pick g cnt = Some (Inr (g', m))))
       \<and> (\<forall>res. removeNumbers pick g cnt = Some res \<longrightarrow>
            (\<exists>g' m. res = Inr (g', m) \<and> map length g' = replicate 9 9 \<and>
               zeros g' = cnt \<and> nonZeros g' = 81 - cnt \<and>
               (\<forall>r c. cellAt g' r c \<noteq> Some 0 \<longrightarrow> cellAt g' r c = cellAt g r c)))"
proof (intro conjI impI allI)
  assume "cnt \<le> card (pick ` {..<n})"
  with assms show "\<exists>g' m. removeNumbers pick g cnt = Some (Inr (g', m))"
    by (intro removeNumbers_returns) simp_all
next
  fix res assume "removeNumbers pick g cnt = Some res"
  from removeNumbers_result[OF assms(1,4) this] assms(1,2)
  obtain g' m where r: "res = Inr (g', m)" "map length g' = replicate 9 9" "zeros g' = cnt"
    "\<forall>r c. cellAt g' r c \<noteq> Some 0 \<longrightarrow> cellAt g' r c = cellAt g r c" by auto
  from zeros_nonZeros[of g'] r(2,3) have "cnt + nonZeros g' = 81" by (simp add: sum_list_replicate)
  then have "nonZeros g' = 81 - cnt" by simp
  with r show "\<exists>g' m. res = Inr (g', m) \<and> map length g' = replicate 9 9 \<and>
               zeros g' = cnt \<and> nonZeros g' = 81 - cnt \<and>
               (\<forall>r c. cellAt g' r c \<noteq> Some 0 \<longrightarrow> cellAt g' r c = cellAt g r c)" by blast
qed

theorem removeNumbers_carves_witness:
  "map length sampleSolution = replicate 9 9 \<and> zeros sampleSolution = 0 \<and> (3::nat) \<le> 81 \<and>
   (\<forall>i. fst (sweep i) < 9 \<and> snd (sweep i) < 9) \<and> 3 \<le> card (sweep ` {..<3}) \<and>
   (\<exists>g' m. removeNumbers sweep sampleSolution 3 = Some (Inr (g', m)) \<and> zeros g' = 3 \<and> nonZeros g' = 78)"
proof -
  have c: "3 \<le> card (sweep ` {..<3})" by (simp add: sweep_cover)
  have b: "(3::nat) \<le> 81" by simp
  from removeNumbers_carves[OF sampleSolution_complete b sweep_range, of 3] c
  obtain g' m where r: "removeNumbers sweep sampleSolution 3 = Some (Inr (g', m))" by blast
  with removeNumbers_carves[OF sampleSolution_complete b sweep_range, of 3]
  have "zeros g' = 3 \<and> nonZeros g' = 78" by auto
  with r c b sampleSolution_complete sweep_range show ?thesis by blast
qed

text \<open>
  C7, as stated, fails: the loop does not end for every sequence of picks. On a complete
  grid with \<open>count = 2\<close>, the sequence that picks cell (0,0) every time zeroes that cell
  once and then never finds a second one.
\<close>

theorem removeNumbers_stuck:
  "map length sampleSolution = replicate 9 9 \<and> zeros sampleSolution = 0 \<and> (2::nat) \<le> 81 \<and>
   removeNumbers (\<lambda>i. (0, 0)) sampleSolution 2 = None"
proof -
  have "removeNumbers (\<lambda>i. (0, 0)) sampleSolution 2 = None"
  proof (rule ccontr)
    assume "removeNumbers (\<lambda>i. (0, 0)) sampleSolution 2 \<noteq> None"
    then obtain res where "removeNumbers (\<lambda>i. (0, 0)) sampleSolution 2 = Some res" by auto
    from removeNumbers_result[OF sampleSolution_complete(1) _ this]
    obtain m where "2 \<le> card ((\<lambda>i::nat. (0::nat, 0::nat)) ` {..<m})" by auto
    moreover have "(\<lambda>i::nat. (0::nat, 0::nat)) ` {..<m} \<subseteq> {(0, 0)}" by auto
    then have "card ((\<lambda>i::nat. (0::nat, 0::nat)) ` {..<m}) \<le> card {(0::nat, 0::nat)}"
      by (intro card_mono) simp_all
    ultimately show False by simp
  qed
  with sampleSolution_complete show ?thesis by simp
qed

text \<open>
  C7, amended. On a 9x9 grid with no zero cell and picks in \<open>0..8\<close>, the loop ends exactly
  when some finite prefix of the pick sequence visits at least \<open>cnt\<close> distinct cells.
\<close>

theorem removeNumbers_terminates_iff:
  assumes "map length g = replicate 9 9" "zeros g = 0"
    and "\<forall>i. fst (pick i) < 9 \<and> snd (pick i) < 9"
  shows "(removeNumbers pick g cnt \<noteq> None) = (\<exists>n. cnt \<le> card (pick ` {..<n}))"
proof
  assume "removeNumbers pick g cnt \<noteq> None"
  then obtain res where "removeNumbers pick g cnt = Some res" by auto
  from removeNumbers_result[OF assms(1,3) this] show "\<exists>n. cnt \<le> card (pick ` {..<n})" by blast
next
  assume "\<exists>n. cnt \<le> card (pick ` {..<n})"
  then obtain n where "cnt \<le> card (pick ` {..<n})" by blast
  from removeNumbers_returns[OF assms this] show "removeNumbers pick g cnt \<noteq> None" by auto
qed

theorem removeNumbers_terminates_iff_witness:
  "map length sampleSolution = replicate 9 9 \<and> zeros sampleSolution = 0 \<and>
   (\<forall>i. fst (sweep i) < 9 \<and> snd (sweep i) < 9) \<and>
   removeNumbers sweep sampleSolution 3 \<noteq> None"
proof -
  have "\<exists>n. 3 \<le> card (sweep ` {..<n})" using sweep_cover by (intro exI[of _ 3]) simp
  with removeNumbers_terminates_iff[OF sampleSolution_complete sweep_range, of 3]
  have "removeNumbers sweep sampleSolution 3 \<noteq> None" by simp
  with sampleSolution_complete sweep_range show ?thesis by blast
qed

section \<open>The fingerprint\<close>

lemma digitChar_inj: "a < 10 \<Longrightarrow> b < 10 \<Longrightarrow> digitChar a = digitChar b \<Longrightarrow> a = b"
proof -
  assume "a < 10" "b < 10" "digitChar a = digitChar b"
  moreover have "distinct ''0123456789''" by simp
  moreover have "length ''0123456789'' = 10" by simp
  ultimately show "a = b" unfolding digitChar_def by (metis nth_eq_iff_index_eq)
qed

lemma showInt_digit: "0 \<le> v \<Longrightarrow> v \<le> 9 \<Longrightarrow> showInt v = [digitChar (nat v)]"
  by (simp add: showInt_def)

lemma grid_elems:
  assumes "map length g = replicate 9 9" "digits g" "row \<in> set g" "v \<in> set row"
  shows "0 \<le> v \<and> v \<le> 9"
proof -
  from assms(1) have len: "length g = 9" by (metis length_map length_replicate)
  from assms(3) obtain r where r: "r < length g" "g ! r = row" by (auto simp: in_set_conv_nth)
  from assms(4) obtain c where c: "c < length row" "row ! c = v" by (auto simp: in_set_conv_nth)
  from r len have r9: "r < 9" by simp
  with shape9_cellAt[OF assms(1)] have "\<And>c. c < 9 \<Longrightarrow> cellAt g r c = Some (g ! r ! c)" by simp
  moreover have "length (g ! r) = 9"
  proof -
    from r have "length (g ! r) = map length g ! r" by simp
    with assms(1) r9 show ?thesis by simp
  qed
  ultimately have "cellAt g r c = Some v" using r c by simp
  moreover from \<open>length (g ! r) = 9\<close> r c have "c < 9" by simp
  ultimately show ?thesis using assms(2) r9 unfolding digits_iff by fastforce
qed

lemma concat_map_single: "\<forall>x\<in>set xs. f x = [h x] \<Longrightarrow> concat (map f xs) = map h xs"
  by (induction xs) auto

lemma hashPuzzle_digits:
  assumes "map length g = replicate 9 9" "digits g"
  shows "hashPuzzle g = map (\<lambda>v. digitChar (nat v)) (concat g)"
proof -
  have "concat (map showInt row) = map (\<lambda>v. digitChar (nat v)) row" if "row \<in> set g" for row
    using grid_elems[OF assms that] by (intro concat_map_single) (simp add: showInt_digit)
  then have "map (\<lambda>row. concat (map showInt row)) g = map (map (\<lambda>v. digitChar (nat v))) g"
    by (intro map_cong) simp_all
  then have "hashPuzzle g = concat (map (map (\<lambda>v. digitChar (nat v))) g)"
    unfolding hashPuzzle_def by (rule arg_cong)
  then show ?thesis by (simp add: map_concat)
qed

lemma puzzle_ok:
  "map length (setCell sampleSolution 0 0 0) = replicate 9 9" "digits (setCell sampleSolution 0 0 0)"
  "sampleSolution \<noteq> setCell sampleSolution 0 0 0"
  by code_simp+

text \<open>
  C9. \<open>hashPuzzle\<close> is a function of the grid alone. On 9x9 grids of digits 0..9 it is the
  row-major string of the 81 digits, and it is injective: two such grids have the same
  hash exactly when they are equal.
\<close>

theorem hashPuzzle_injective:
  assumes "map length g1 = replicate 9 9" "digits g1" "map length g2 = replicate 9 9" "digits g2"
  shows "hashPuzzle g1 = map (\<lambda>v. digitChar (nat v)) (concat g1)
       \<and> length (hashPuzzle g1) = 81
       \<and> ((hashPuzzle g1 = hashPuzzle g2) = (g1 = g2))"
proof -
  have h1: "hashPuzzle g1 = map (\<lambda>v. digitChar (nat v)) (concat g1)"
    by (rule hashPuzzle_digits[OF assms(1,2)])
  have h2: "hashPuzzle g2 = map (\<lambda>v. digitChar (nat v)) (concat g2)"
    by (rule hashPuzzle_digits[OF assms(3,4)])
  have len: "length (concat g1) = 81"
    using assms(1) by (simp add: length_concat sum_list_replicate)
  have inj: "inj_on (\<lambda>v. digitChar (nat v)) (set (concat g1) \<union> set (concat g2))"
  proof (rule inj_onI)
    fix x y assume x: "x \<in> set (concat g1) \<union> set (concat g2)"
      and y: "y \<in> set (concat g1) \<union> set (concat g2)" and e: "digitChar (nat x) = digitChar (nat y)"
    from x grid_elems[OF assms(1,2)] grid_elems[OF assms(3,4)] have "0 \<le> x \<and> x \<le> 9" by auto
    moreover from y grid_elems[OF assms(1,2)] grid_elems[OF assms(3,4)] have "0 \<le> y \<and> y \<le> 9" by auto
    ultimately have "nat x < 10" "nat y < 10" "x = int (nat x)" "y = int (nat y)" by linarith+
    with digitChar_inj[of "nat x" "nat y"] e show "x = y" by metis
  qed
  have "g1 = g2" if "hashPuzzle g1 = hashPuzzle g2"
  proof -
    from that h1 h2 inj have c: "concat g1 = concat g2"
      by (simp add: inj_on_map_eq_map)
    have l: "length g1 = length g2" using assms(1,3) by (metis length_map)
    have "\<forall>(x, y)\<in>set (zip g1 g2). length x = length y"
    proof -
      have "length x = 9" if "x \<in> set g1" for x
        using that assms(1) by (metis in_set_replicate image_eqI list.set_map)
      moreover have "length y = 9" if "y \<in> set g2" for y
        using that assms(3) by (metis in_set_replicate image_eqI list.set_map)
      ultimately show ?thesis by (metis (mono_tags, lifting) case_prodI2 set_zip_leftD set_zip_rightD)
    qed
    with l c show ?thesis by (simp add: concat_eq_concat_iff)
  qed
  with h1 len show ?thesis by auto
qed

theorem hashPuzzle_injective_witness:
  "map length sampleSolution = replicate 9 9 \<and> digits sampleSolution \<and>
   map length (setCell sampleSolution 0 0 0) = replicate 9 9 \<and> digits (setCell sampleSolution 0 0 0) \<and>
   length (hashPuzzle sampleSolution) = 81 \<and>
   hashPuzzle sampleSolution \<noteq> hashPuzzle (setCell sampleSolution 0 0 0)"
proof -
  from hashPuzzle_injective[OF sampleSolution_complete(1) sampleSolution_ok(2) puzzle_ok(1,2)] puzzle_ok(3)
  have "length (hashPuzzle sampleSolution) = 81"
    "hashPuzzle sampleSolution \<noteq> hashPuzzle (setCell sampleSolution 0 0 0)" by blast+
  with sampleSolution_complete(1) sampleSolution_ok(2) puzzle_ok(1,2) show ?thesis by blast
qed

section \<open>The session\<close>

lemma stopTimer_fields:
  "board (stopTimer s) = board s" "gameHistory (stopTimer s) = gameHistory s"
  "storedHistory (stopTimer s) = storedHistory s" "hintsRemaining (stopTimer s) = hintsRemaining s"
  "solution (stopTimer s) = solution s" "showGiveUpModal (stopTimer s) = showGiveUpModal s"
  "hasGivenUp (stopTimer s) = hasGivenUp s"
  by (simp_all add: stopTimer_def split: option.splits)

lemma Cell_overwrite: "(cell :: Cell)\<lparr>cellValue := v, isFixed := f\<rparr> = \<lparr>cellValue = v, isFixed = f\<rparr>"
  by (cases cell) simp

lemma playSession_shape:
  "map length (board playSession) = replicate 9 9" "map length (solution playSession) = replicate 9 9"
  by code_simp+

lemma solvedSession_wins:
  "map length (board solvedSession) = replicate 9 9" "boardWins solvedSession"
  by code_simp+

lemma playSession_empty: "emptyCells (board playSession) = [(0, 0)]"
  by code_simp

subsection \<open>Victory\<close>

lemma checkVictory_cases:
  assumes "map length (board s) = replicate 9 9"
  shows "checkVictory nowId nowDate stringify s =
     (if boardWins s
      then saveHistory stringify (victoryEntry nowId nowDate s) (stopTimer (s\<lparr>showVictoryModal := True\<rparr>))
      else s)"
proof -
  have v: "valueAt (board s) r c = Some (cellValue (board s ! r ! c))" if "r < 9" "c < 9" for r c
    using shape9_cellAt[OF assms that] by (simp add: valueAt_def)
  have a: "list_all (\<lambda>(row, col). valueAt (board s) row col \<noteq> Some 0) cells9
        \<longleftrightarrow> (\<forall>r<9. \<forall>c<9. cellValue (board s ! r ! c) \<noteq> 0)"
    unfolding all_cells9 using v by simp
  have b: "list_all (\<lambda>(row, col). valueAt (board s) row col = cellAt (solution s) row col) cells9
        \<longleftrightarrow> (\<forall>r<9. \<forall>c<9. cellAt (solution s) r c = Some (cellValue (board s ! r ! c)))"
    unfolding all_cells9 using v by auto
  have "boardWins s \<longleftrightarrow> (\<forall>r<9. \<forall>c<9. cellValue (board s ! r ! c) \<noteq> 0) \<and>
       (\<forall>r<9. \<forall>c<9. cellAt (solution s) r c = Some (cellValue (board s ! r ! c)))"
    unfolding boardWins_def all_cells9 by blast
  then show ?thesis
    unfolding checkVictory_def a b by auto
qed

lemma saveHistory_take:
  "saveHistory stringify e s =
     s\<lparr>gameHistory := take 50 (e # gameHistory s),
       storedHistory := Some (stringify (take 50 (e # gameHistory s)))\<rparr>"
  by (simp add: saveHistory_def Let_def)

lemma checkVictory_repeat:
  assumes "map length (board s) = replicate 9 9" "\<not> boardWins s"
  shows "foldl (\<lambda>s' (nowId, nowDate). checkVictory nowId nowDate stringify s') s clocks = s"
proof (induction clocks)
  case Nil
  show ?case by simp
next
  case (Cons a clocks)
  obtain i d where a: "a = (i, d)" by (cases a)
  from checkVictory_cases[OF assms(1), of i d stringify] assms(2)
  have "checkVictory i d stringify s = s" by simp
  with Cons a show ?case by simp
qed

lemma checkVictory_board: "board (checkVictory nowId nowDate stringify s) = board s"
  by (simp add: checkVictory_def saveHistory_def Let_def stopTimer_fields)

lemma checkVictory_hints: "hintsRemaining (checkVictory nowId nowDate stringify s) = hintsRemaining s"
  by (simp add: checkVictory_def saveHistory_def Let_def stopTimer_fields)

text \<open>
  C2. On a 9x9 board: when all 81 cells are non-zero and equal the solution,
  \<open>checkVictory\<close> shows the victory, stops the timer and puts one entry at the head of
  the history (kept to its 50 newest entries and written to the store), the entry
  carrying the clock's id and date, the difficulty, the elapsed time,
  \<open>hintsUsed = hintBudget - hintsRemaining\<close> and the fingerprint of the current puzzle.
  On any other board, any number of calls, at any clock readings, leaves the whole
  session as it was: board, hint budget and history included.
\<close>

theorem checkVictory_won_iff:
  assumes "map length (board s) = replicate 9 9"
  shows "(boardWins s \<longrightarrow>
            checkVictory nowId nowDate stringify s =
              (stopTimer (s\<lparr>showVictoryModal := True\<rparr>))
                \<lparr>gameHistory := take 50 (victoryEntry nowId nowDate s # gameHistory s),
                 storedHistory := Some (stringify (take 50 (victoryEntry nowId nowDate s # gameHistory s)))\<rparr>
            \<and> showVictoryModal (checkVictory nowId nowDate stringify s)
            \<and> victoryEntry nowId nowDate s =
                 \<lparr>entryId = nowId, difficulty = selectedDifficulty s, time = elapsedTime s,
                  hintsUsed = hintsSettings (selectedDifficulty s) - hintsRemaining s,
                  date = nowDate, puzzleHash = currentPuzzleHash s\<rparr>)
       \<and> (\<not> boardWins s \<longrightarrow>
            foldl (\<lambda>s' (i, d). checkVictory i d stringify s') s clocks = s)"
proof (intro conjI impI)
  assume w: "boardWins s"
  have g: "gameHistory (stopTimer (s\<lparr>showVictoryModal := True\<rparr>)) = gameHistory s"
    by (simp add: stopTimer_def split: option.splits)
  from w show "checkVictory nowId nowDate stringify s =
              (stopTimer (s\<lparr>showVictoryModal := True\<rparr>))
                \<lparr>gameHistory := take 50 (victoryEntry nowId nowDate s # gameHistory s),
                 storedHistory := Some (stringify (take 50 (victoryEntry nowId nowDate s # gameHistory s)))\<rparr>"
    by (simp add: checkVictory_cases[OF assms] saveHistory_take g)
  from w show "showVictoryModal (checkVictory nowId nowDate stringify s)"
    by (simp add: checkVictory_cases[OF assms] saveHistory_take stopTimer_def split: option.splits)
  show "victoryEntry nowId nowDate s =
                 \<lparr>entryId = nowId, difficulty = selectedDifficulty s, time = elapsedTime s,
                  hintsUsed = hintsSettings (selectedDifficulty s) - hintsRemaining s,
                  date = nowDate, puzzleHash = currentPuzzleHash s\<rparr>"
    by (simp add: victoryEntry_def)
next
  assume "\<not> boardWins s"
  with assms show "foldl (\<lambda>s' (i, d). checkVictory i d stringify s') s clocks = s"
    by (rule checkVictory_repeat)
qed

theorem checkVictory_won_iff_witness:
  "map length (board solvedSession) = replicate 9 9 \<and> boardWins solvedSession \<and>
   gameHistory (checkVictory ''1762140000000'' ''03/11/2026, 00:40:00'' (\<lambda>h. []) solvedSession) =
     [\<lparr>entryId = ''1762140000000'', difficulty = medio, time = 95, hintsUsed = 1,
       date = ''03/11/2026, 00:40:00'', puzzleHash = hashPuzzle (setCell sampleSolution 0 0 0)\<rparr>] \<and>
   showVictoryModal (checkVictory ''1762140000000'' ''03/11/2026, 00:40:00'' (\<lambda>h. []) solvedSession)"
proof -
  let ?s' = "checkVictory ''1762140000000'' ''03/11/2026, 00:40:00'' (\<lambda>h. []) solvedSession"
  let ?e = "victoryEntry ''1762140000000'' ''03/11/2026, 00:40:00'' solvedSession"
  from checkVictory_won_iff[OF solvedSession_wins(1), of "''1762140000000''" "''03/11/2026, 00:40:00''" "\<lambda>h. []" "[]"]
    solvedSession_wins(2)
  have e: "?s' = (stopTimer (solvedSession\<lparr>showVictoryModal := True\<rparr>))
          \<lparr>gameHistory := take 50 (?e # gameHistory solvedSession),
           storedHistory := Some ((\<lambda>h. []) (take 50 (?e # gameHistory solvedSession)))\<rparr>"
    and v: "showVictoryModal ?s'"
    by blast+
  have h: "gameHistory solvedSession = []" "selectedDifficulty solvedSession = medio"
    "elapsedTime solvedSession = 95" "hintsRemaining solvedSession = 2"
    "currentPuzzleHash solvedSession = hashPuzzle (setCell sampleSolution 0 0 0)"
    by (simp_all add: solvedSession_def playSession_def initialSession_def)
  from h have "gameHistory ((stopTimer (solvedSession\<lparr>showVictoryModal := True\<rparr>))
          \<lparr>gameHistory := take 50 (?e # gameHistory solvedSession),
           storedHistory := Some ((\<lambda>h. []) (take 50 (?e # gameHistory solvedSession)))\<rparr>) =
     [\<lparr>entryId = ''1762140000000'', difficulty = medio, time = 95, hintsUsed = 1,
       date = ''03/11/2026, 00:40:00'', puzzleHash = hashPuzzle (setCell sampleSolution 0 0 0)\<rparr>]"
    by (simp add: victoryEntry_def)
  with e have "gameHistory ?s' =
     [\<lparr>entryId = ''1762140000000'', difficulty = medio, time = 95, hintsUsed = 1,
       date = ''03/11/2026, 00:40:00'', puzzleHash = hashPuzzle (setCell sampleSolution 0 0 0)\<rparr>]"
    by metis
  with v solvedSession_wins show ?thesis by blast
qed

subsection \<open>Cell edits\<close>

text \<open>
  C6, as stated, fails: \<open>updateCell\<close> does not look at the state of the session. In a
  paused session an edit of a cell that is not fixed, with a value in 0..9, changes
  the cell.
\<close>

theorem updateCell_paused:
  "\<not> playing pausedSession \<and>
   cellAt (board pausedSession) 0 0 = Some \<lparr>cellValue = 0, isFixed = False\<rparr> \<and>
   cellAt (board (updateCell ''1762140000000'' ''03/11/2026, 00:40:00'' (\<lambda>h. []) 0 0 (Some 5) pausedSession)) 0 0
     = Some \<lparr>cellValue = 5, isFixed = False\<rparr>"
  by code_simp

text \<open>
  C6, amended. An edit is ignored, with no error and no change, when the target cell
  does not exist, or is fixed, or the value lies outside 0..9. Every other edit, whatever
  the state of the session, sets the value of that cell, changes no other cell, and
  runs the victory check.
\<close>

theorem updateCell_guard:
  "(cellAt (board s) row col = None \<or> (\<exists>cell. cellAt (board s) row col = Some cell \<and> isFixed cell)
      \<or> editValue parsed < 0 \<or> 9 < editValue parsed
      \<longrightarrow> updateCell nowId nowDate stringify row col parsed s = s)
   \<and> (\<forall>cell. cellAt (board s) row col = Some cell \<and> \<not> isFixed cell
          \<and> 0 \<le> editValue parsed \<and> editValue parsed \<le> 9 \<longrightarrow>
        updateCell nowId nowDate stringify row col parsed s =
          checkVictory nowId nowDate stringify
            (s\<lparr>board := setCell (board s) row col (cell\<lparr>cellValue := editValue parsed\<rparr>)\<rparr>)
        \<and> cellAt (board (updateCell nowId nowDate stringify row col parsed s)) row col
              = Some (cell\<lparr>cellValue := editValue parsed\<rparr>)
        \<and> (\<forall>r c. (r, c) \<noteq> (row, col) \<longrightarrow>
              cellAt (board (updateCell nowId nowDate stringify row col parsed s)) r c = cellAt (board s) r c))"
  by (auto simp: updateCell_def Let_def checkVictory_board cellAt_setCell split: option.splits)

theorem updateCell_guard_witness:
  "cellAt (board pausedSession) 0 0 = Some \<lparr>cellValue = 0, isFixed = False\<rparr> \<and>
   cellAt (board (updateCell ''1'' ''d'' (\<lambda>h. []) 0 0 (Some 5) pausedSession)) 0 0
     = Some \<lparr>cellValue = 5, isFixed = False\<rparr> \<and>
   updateCell ''1'' ''d'' (\<lambda>h. []) 0 0 (Some 12) pausedSession = pausedSession \<and>
   updateCell ''1'' ''d'' (\<lambda>h. []) 0 1 (Some 5) pausedSession = pausedSession"
proof -
  have c: "cellAt (board pausedSession) 0 0 = Some \<lparr>cellValue = 0, isFixed = False\<rparr>"
    "cellAt (board pausedSession) 0 1 = Some \<lparr>cellValue = 2, isFixed = True\<rparr>" by code_simp+
  have ev: "editValue (Some 5) = 5" "editValue (Some 12) = 12" by (simp_all add: editValue_def)
  have upd: "\<lparr>cellValue = 0, isFixed = False\<rparr>\<lparr>cellValue := editValue (Some 5)\<rparr> = \<lparr>cellValue = 5, isFixed = False\<rparr>"
    by (simp add: ev)
  have rng: "\<not> isFixed \<lparr>cellValue = 0, isFixed = False\<rparr>" "0 \<le> editValue (Some 5)" "editValue (Some 5) \<le> 9"
    by (simp_all add: ev)
  from updateCell_guard[of pausedSession 0 0 "Some 5" "''1''" "''d''" "\<lambda>h. []"] c(1) rng
  have "cellAt (board (updateCell ''1'' ''d'' (\<lambda>h. []) 0 0 (Some 5) pausedSession)) 0 0
     = Some (\<lparr>cellValue = 0, isFixed = False\<rparr>\<lparr>cellValue := editValue (Some 5)\<rparr>)" by blast
  with upd have a: "cellAt (board (updateCell ''1'' ''d'' (\<lambda>h. []) 0 0 (Some 5) pausedSession)) 0 0
     = Some \<lparr>cellValue = 5, isFixed = False\<rparr>" by simp
  have big: "9 < editValue (Some 12)" by (simp add: ev)
  from updateCell_guard[of pausedSession 0 0 "Some 12" "''1''" "''d''" "\<lambda>h. []"] big
  have b: "updateCell ''1'' ''d'' (\<lambda>h. []) 0 0 (Some 12) pausedSession = pausedSession"
    by blast
  have fx: "isFixed \<lparr>cellValue = 2, isFixed = True\<rparr>" by simp
  from updateCell_guard[of pausedSession 0 1 "Some 5" "''1''" "''d''" "\<lambda>h. []"] c(2) fx
  have d: "updateCell ''1'' ''d'' (\<lambda>h. []) 0 1 (Some 5) pausedSession = pausedSession"
    by blast
  from a b c(1) d show ?thesis by blast
qed

subsection \<open>Hints\<close>

lemma emptyCells_nth:
  assumes "k < length (emptyCells b)"
  shows "\<exists>row col cell. emptyCells b ! k = (row, col) \<and> row < 9 \<and> col < 9 \<and>
           cellAt b row col = Some cell \<and> \<not> isFixed cell \<and> cellValue cell = 0"
proof -
  from assms have "emptyCells b ! k \<in> set (emptyCells b)" by simp
  then show ?thesis
    unfolding emptyCells_def cells9_def by (auto split: option.splits)
qed

lemma emptyCells_set: "set (emptyCells b) = {(r, c). r < 9 \<and> c < 9 \<and> hintable b r c}"
  unfolding emptyCells_def cells9_def hintable_def by auto

lemma emptyCells_distinct: "distinct (emptyCells b)"
  unfolding emptyCells_def cells9_def by (simp add: distinct_product)

lemma emptyCells_index:
  assumes "r < 9" "c < 9" "hintable b r c"
  shows "\<exists>!j. j < length (emptyCells b) \<and> emptyCells b ! j = (r, c)"
proof -
  from assms have "(r, c) \<in> set (emptyCells b)" by (simp add: emptyCells_set)
  then obtain j where j: "j < length (emptyCells b)" "emptyCells b ! j = (r, c)"
    by (auto simp: in_set_conv_nth)
  show ?thesis
  proof (rule ex1I[of _ j])
    show "j < length (emptyCells b) \<and> emptyCells b ! j = (r, c)" using j by simp
  next
    fix i assume "i < length (emptyCells b) \<and> emptyCells b ! i = (r, c)"
    with j emptyCells_distinct[of b] show "i = j" by (metis nth_eq_iff_index_eq)
  qed
qed

lemma hintSession_facts:
  "map length (solution hintSession) = replicate 9 9"
  "emptyCells (board hintSession) = [(0, 0), (4, 4), (8, 8)]"
  "hintable (board hintSession) 8 8"
  "cellAt (board hintSession) 0 0 = Some \<lparr>cellValue = 0, isFixed = False\<rparr>"
  "solution hintSession ! 8 ! 8 = 8"
  by code_simp+

text \<open>
  C4. With no hint left, or with none of the 81 cells both non-fixed and empty, \<open>useHint\<close>
  changes nothing. Otherwise there is a cell to draw from: the cells the index is drawn
  among are exactly the non-fixed empty cells, each under exactly one index, so that a
  uniform index \<^verbatim>\<open>Math.floor(Math.random() * emptyCells.length)\<close> is a uniform cell. With
  a hint left and \<open>k\<close> the index drawn, \<open>useHint\<close> sets the \<open>k\<close>-th such cell to the
  solution's value there, fixes it, changes no other cell and takes 1 from
  \<open>hintsRemaining\<close>, which therefore never becomes negative. (The solution is 9x9.)
\<close>

theorem useHint_effect:
  assumes "map length (solution s) = replicate 9 9"
  shows "(hintsRemaining s \<le> 0 \<or> (\<forall>r<9. \<forall>c<9. \<not> hintable (board s) r c) \<longrightarrow> useHint k s = s)
       \<and> ((\<exists>r<9. \<exists>c<9. hintable (board s) r c) \<longrightarrow> 0 < length (emptyCells (board s)))
       \<and> (\<forall>r<9. \<forall>c<9. hintable (board s) r c \<longrightarrow>
             (\<exists>!j. j < length (emptyCells (board s)) \<and> emptyCells (board s) ! j = (r, c)))
       \<and> (0 < hintsRemaining s \<and> k < length (emptyCells (board s)) \<longrightarrow>
            (\<exists>row col cell. emptyCells (board s) ! k = (row, col) \<and> row < 9 \<and> col < 9 \<and>
               hintable (board s) row col \<and>
               cellAt (board s) row col = Some cell \<and> \<not> isFixed cell \<and> cellValue cell = 0 \<and>
               useHint k s =
                 s\<lparr>board := setCell (board s) row col \<lparr>cellValue = solution s ! row ! col, isFixed = True\<rparr>,
                   hintsRemaining := hintsRemaining s - 1\<rparr> \<and>
               cellAt (board (useHint k s)) row col
                 = Some \<lparr>cellValue = solution s ! row ! col, isFixed = True\<rparr> \<and>
               (\<forall>r c. (r, c) \<noteq> (row, col) \<longrightarrow>
                  cellAt (board (useHint k s)) r c = cellAt (board s) r c)))
       \<and> (0 \<le> hintsRemaining s \<longrightarrow> 0 \<le> hintsRemaining (useHint k s))"
proof (intro conjI impI allI)
  assume "hintsRemaining s \<le> 0 \<or> (\<forall>r<9. \<forall>c<9. \<not> hintable (board s) r c)"
  moreover have "emptyCells (board s) = []" if "\<forall>r<9. \<forall>c<9. \<not> hintable (board s) r c"
  proof -
    from that have "set (emptyCells (board s)) = {}" unfolding emptyCells_set by auto
    then show ?thesis by simp
  qed
  ultimately show "useHint k s = s" by (auto simp: useHint_def)
next
  assume "\<exists>r<9. \<exists>c<9. hintable (board s) r c"
  then have "set (emptyCells (board s)) \<noteq> {}" unfolding emptyCells_set by auto
  then show "0 < length (emptyCells (board s))" by auto
next
  fix r c :: nat assume "r < 9" "c < 9" "hintable (board s) r c"
  then show "\<exists>!j. j < length (emptyCells (board s)) \<and> emptyCells (board s) ! j = (r, c)"
    by (rule emptyCells_index)
next
  assume a: "0 < hintsRemaining s \<and> k < length (emptyCells (board s))"
  with emptyCells_nth[of k "board s"] obtain row col cell where
    c: "emptyCells (board s) ! k = (row, col)" "row < 9" "col < 9"
       "cellAt (board s) row col = Some cell" "\<not> isFixed cell" "cellValue cell = 0" by blast
  from c(4,5,6) have h: "hintable (board s) row col" by (simp add: hintable_def)
  from shape9_cellAt[OF assms c(2,3)] have sol: "cellAt (solution s) row col = Some (solution s ! row ! col)" .
  from a have ne: "emptyCells (board s) \<noteq> []" by auto
  from a c sol ne have u: "useHint k s =
      s\<lparr>board := setCell (board s) row col \<lparr>cellValue = solution s ! row ! col, isFixed = True\<rparr>,
        hintsRemaining := hintsRemaining s - 1\<rparr>"
    by (simp add: useHint_def reveal_def Let_def Cell_overwrite)
  from c(4) have here: "cellAt (board (useHint k s)) row col
                 = Some \<lparr>cellValue = solution s ! row ! col, isFixed = True\<rparr>"
    unfolding u by (simp add: cellAt_setCell)
  have other: "\<forall>r c. (r, c) \<noteq> (row, col) \<longrightarrow>
                  cellAt (board (useHint k s)) r c = cellAt (board s) r c"
    unfolding u by (auto simp: cellAt_setCell)
  from c h u here other
  show "\<exists>row col cell. emptyCells (board s) ! k = (row, col) \<and> row < 9 \<and> col < 9 \<and>
               hintable (board s) row col \<and>
               cellAt (board s) row col = Some cell \<and> \<not> isFixed cell \<and> cellValue cell = 0 \<and>
               useHint k s =
                 s\<lparr>board := setCell (board s) row col \<lparr>cellValue = solution s ! row ! col, isFixed = True\<rparr>,
                   hintsRemaining := hintsRemaining s - 1\<rparr> \<and>
               cellAt (board (useHint k s)) row col
                 = Some \<lparr>cellValue = solution s ! row ! col, isFixed = True\<rparr> \<and>
               (\<forall>r c. (r, c) \<noteq> (row, col) \<longrightarrow>
                  cellAt (board (useHint k s)) r c = cellAt (board s) r c)" by blast
next
  assume "0 \<le> hintsRemaining s"
  then show "0 \<le> hintsRemaining (useHint k s)" by (simp add: useHint_def Let_def)
qed

theorem useHint_effect_witness:
  "map length (solution hintSession) = replicate 9 9 \<and> 0 < hintsRemaining hintSession \<and>
   hintable (board hintSession) 8 8 \<and>
   emptyCells (board hintSession) = [(0, 0), (4, 4), (8, 8)] \<and>
   cellAt (board (useHint 2 hintSession)) 8 8 = Some \<lparr>cellValue = 8, isFixed = True\<rparr> \<and>
   cellAt (board (useHint 2 hintSession)) 0 0 = Some \<lparr>cellValue = 0, isFixed = False\<rparr> \<and>
   hintsRemaining (useHint 2 hintSession) = 2"
proof -
  have hr: "hintsRemaining hintSession = 3" by (simp add: hintSession_def playSession_def)
  have pre: "0 < hintsRemaining hintSession \<and> 2 < length (emptyCells (board hintSession))"
    using hr hintSession_facts(2) by simp
  have nth: "emptyCells (board hintSession) ! 2 = (8, 8)" using hintSession_facts(2) by simp
  from useHint_effect[OF hintSession_facts(1), of 2] pre
  obtain row col where r: "emptyCells (board hintSession) ! 2 = (row, col)"
    "cellAt (board (useHint 2 hintSession)) row col
        = Some \<lparr>cellValue = solution hintSession ! row ! col, isFixed = True\<rparr>"
    "\<forall>r c. (r, c) \<noteq> (row, col) \<longrightarrow>
        cellAt (board (useHint 2 hintSession)) r c = cellAt (board hintSession) r c"
    "useHint 2 hintSession =
       hintSession\<lparr>board := setCell (board hintSession) row col
                               \<lparr>cellValue = solution hintSession ! row ! col, isFixed = True\<rparr>,
         hintsRemaining := hintsRemaining hintSession - 1\<rparr>" by blast
  from r(1) nth have rc: "row = 8" "col = 8" by simp_all
  from r(2) rc hintSession_facts(5)
  have a: "cellAt (board (useHint 2 hintSession)) 8 8 = Some \<lparr>cellValue = 8, isFixed = True\<rparr>" by simp
  from r(3) rc have "cellAt (board (useHint 2 hintSession)) 0 0 = cellAt (board hintSession) 0 0" by simp
  with hintSession_facts(4)
  have b: "cellAt (board (useHint 2 hintSession)) 0 0 = Some \<lparr>cellValue = 0, isFixed = False\<rparr>" by simp
  from r(4) hr have c: "hintsRemaining (useHint 2 hintSession) = 2" by simp
  from a b c hr hintSession_facts(1,2,3) show ?thesis by simp
qed

subsection \<open>Giving up\<close>

lemma foldl_reveal:
  assumes "map length sol = replicate 9 9" "map length b = replicate 9 9"
    and "\<forall>p\<in>set ps. fst p < 9 \<and> snd p < 9"
  shows "map length (foldl (reveal sol) b ps) = replicate 9 9 \<and>
         (\<forall>r c. cellAt (foldl (reveal sol) b ps) r c =
            (if (r, c) \<in> set ps \<and> cellAt b r c \<noteq> None then Some \<lparr>cellValue = sol ! r ! c, isFixed = True\<rparr> else cellAt b r c))"
  using assms(2,3)
proof (induction ps arbitrary: b)
  case Nil
  then show ?case by simp
next
  case (Cons p ps)
  obtain row col where p: "p = (row, col)" by (cases p)
  with Cons.prems have rc: "row < 9" "col < 9" by simp_all
  let ?b = "setCell b row col \<lparr>cellValue = sol ! row ! col, isFixed = True\<rparr>"
  from shape9_cellAt[OF assms(1) rc] shape9_cellAt[OF Cons.prems(1) rc] p
  have step: "reveal sol b p = ?b" by (simp add: reveal_def Cell_overwrite)
  have shape: "map length ?b = replicate 9 9" using Cons.prems(1) by (simp add: map_length_setCell)
  from Cons.prems(2) have rest: "\<forall>p\<in>set ps. fst p < 9 \<and> snd p < 9" by simp
  from Cons.IH[OF shape rest] step p shape9_cellAt[OF Cons.prems(1) rc]
  show ?case by (auto simp: cellAt_setCell)
qed

text \<open>
  What giving up does in every session with a 9x9 board and a 9x9 solution: each of the
  81 cells gets the solution's value and is fixed, the history and the store are as
  they were, and of the running timers exactly the one \<open>timerInterval\<close> holds is
  stopped.
\<close>

lemma confirmGiveUp_reveals:
  assumes "map length (board s) = replicate 9 9" "map length (solution s) = replicate 9 9"
  shows "(\<forall>r<9. \<forall>c<9. cellAt (board (confirmGiveUp (askGiveUp s))) r c
              = Some \<lparr>cellValue = solution s ! r ! c, isFixed = True\<rparr>)
       \<and> map length (board (confirmGiveUp (askGiveUp s))) = replicate 9 9
       \<and> activeTimers (confirmGiveUp (askGiveUp s)) = activeTimers s - (set_option (timerInterval s) - {0})
       \<and> hasGivenUp (confirmGiveUp (askGiveUp s))
       \<and> gameHistory (confirmGiveUp (askGiveUp s)) = gameHistory s
       \<and> storedHistory (confirmGiveUp (askGiveUp s)) = storedHistory s"
proof -
  have cells: "\<forall>p\<in>set cells9. fst p < 9 \<and> snd p < 9" by (auto simp: cells9_def)
  have mem: "(r, c) \<in> set cells9" if "r < 9" "c < 9" for r c using that by (simp add: cells9_def)
  let ?b = "foldl (reveal (solution s)) (board s) cells9"
  from foldl_reveal[OF assms(2,1) cells]
  have fr: "map length ?b = replicate 9 9"
    "\<And>r c. cellAt ?b r c = (if (r, c) \<in> set cells9 \<and> cellAt (board s) r c \<noteq> None
        then Some \<lparr>cellValue = solution s ! r ! c, isFixed = True\<rparr> else cellAt (board s) r c)"
    by blast+
  have b: "board (confirmGiveUp (askGiveUp s)) = ?b"
    by (simp add: confirmGiveUp_def askGiveUp_def stopTimer_fields)
  have t: "activeTimers (confirmGiveUp (askGiveUp s)) = activeTimers s - (set_option (timerInterval s) - {0})"
    by (auto simp: confirmGiveUp_def askGiveUp_def stopTimer_def split: option.splits)
  have "\<forall>r<9. \<forall>c<9. cellAt ?b r c = Some \<lparr>cellValue = solution s ! r ! c, isFixed = True\<rparr>"
    using fr(2) mem shape9_cellAt[OF assms(1)] by simp
  with b fr(1) t show ?thesis
    by (simp add: confirmGiveUp_def askGiveUp_def stopTimer_fields)
qed

text \<open>
  C8 holds for the board and the history, and fails on the code for the timer. From a
  Playing session whose one timer has handle 7: the history is opened (the timer is
  cleared), giving up is asked for and cancelled (\<open>cancelGiveUp\<close> starts timer 8), the
  history is closed (\<open>toggleHistory\<close> starts timer 9 over it, without clearing 8), and
  giving up is asked for again and confirmed. \<open>askGiveUp\<close> clears timer 9, the one the
  variable holds; timer 8 still runs, so the elapsed time keeps advancing after the
  solution is revealed.
\<close>

theorem giveUp_leaves_timer:
  "playing playSession \<and> activeTimers playSession = {7} \<and>
   activeTimers (toggleHistory 9 (cancelGiveUp 8 (askGiveUp (toggleHistory 0 playSession)))) = {8, 9} \<and>
   activeTimers (confirmGiveUp (askGiveUp
      (toggleHistory 9 (cancelGiveUp 8 (askGiveUp (toggleHistory 0 playSession)))))) = {8} \<and>
   timerInterval (confirmGiveUp (askGiveUp
      (toggleHistory 9 (cancelGiveUp 8 (askGiveUp (toggleHistory 0 playSession)))))) = None \<and>
   hasGivenUp (confirmGiveUp (askGiveUp
      (toggleHistory 9 (cancelGiveUp 8 (askGiveUp (toggleHistory 0 playSession)))))) \<and>
   cellAt (board (confirmGiveUp (askGiveUp
      (toggleHistory 9 (cancelGiveUp 8 (askGiveUp (toggleHistory 0 playSession))))))) 0 0
     = Some \<lparr>cellValue = 1, isFixed = True\<rparr> \<and>
   gameHistory (confirmGiveUp (askGiveUp
      (toggleHistory 9 (cancelGiveUp 8 (askGiveUp (toggleHistory 0 playSession)))))) = []"
  by code_simp

subsection \<open>Loading the history\<close>

text \<open>
  C5, as stated, fails: a stored text that does not parse makes \<open>loadHistory\<close> end in the
  \<open>SyntaxError\<close> of \<^verbatim>\<open>JSON.parse\<close>, not in an empty history.
\<close>

theorem loadHistory_corrupted:
  "storedHistory corruptSession = Some ''corrupted'' \<and>
   jsonParse (\<lambda>t. Inr []) ''corrupted'' = (Inl SyntaxError :: error + HistoryEntry list) \<and>
   loadHistory (\<lambda>t. Inr []) corruptSession = Inl SyntaxError"
  by (simp add: corruptSession_def initialSession_def loadHistory_def jsonParse_def
      jsonWhitespace_def jsonValueStart_def)

text \<open>
  C5, amended. When nothing is stored (or the empty string), \<open>loadHistory\<close> returns
  normally and leaves the history as it was, which is empty at start-up. When the
  stored text fails to parse, the \<open>SyntaxError\<close> reaches the caller and the history is
  not assigned. When it parses, the history becomes the parsed entries.
\<close>

theorem loadHistory_outcomes:
  "(storedHistory s = None \<or> storedHistory s = Some [] \<longrightarrow> loadHistory decode s = Inr s)
   \<and> (\<forall>t e. storedHistory s = Some t \<and> t \<noteq> [] \<and> jsonParse decode t = Inl e \<longrightarrow>
         loadHistory decode s = Inl e)
   \<and> (\<forall>t entries. storedHistory s = Some t \<and> t \<noteq> [] \<and> jsonParse decode t = Inr entries \<longrightarrow>
         loadHistory decode s = Inr (s\<lparr>gameHistory := entries\<rparr>))"
  by (auto simp: loadHistory_def)

theorem loadHistory_outcomes_witness:
  "loadHistory (\<lambda>t. Inr []) initialSession = Inr initialSession \<and>
   loadHistory (\<lambda>t. Inr []) (initialSession\<lparr>storedHistory := Some ''<html>''\<rparr>) = Inl SyntaxError"
proof -
  have a: "storedHistory initialSession = None" by (simp add: initialSession_def)
  have b: "jsonParse (\<lambda>t. Inr []) ''<html>'' = (Inl SyntaxError :: error + HistoryEntry list)"
    by (simp add: jsonParse_def jsonWhitespace_def jsonValueStart_def)
  from loadHistory_outcomes[of initialSession "\<lambda>t. Inr []"] a
  have 1: "loadHistory (\<lambda>t. Inr []) initialSession = Inr initialSession" by simp
  from loadHistory_outcomes[of "initialSession\<lparr>storedHistory := Some ''<html>''\<rparr>" "\<lambda>t. Inr []"] b
  have 2: "loadHistory (\<lambda>t. Inr []) (initialSession\<lparr>storedHistory := Some ''<html>''\<rparr>) = Inl SyntaxError"
    by simp
  from 1 2 show ?thesis by blast
qed

end
